theory Spec2Isabelle
  imports Main "HOL-Library.Log_Nat"
begin

section \<open>Python values used by auto-selfcontrol.py\<close>

text \<open>
  The script raises two kinds of exception in the functions modelled here: \<open>KeyError\<close>
  from \<open>schedule["..."]\<close> on a missing key, and \<open>ValueError\<close> from the \<open>datetime\<close>
  constructor on a field out of range. Every fallible function returns
  \<open>py_error + 'a\<close>, with \<open>Inl\<close> the exception.
\<close>

datatype py_error = KeyError | ValueError

text \<open>
  A schedule is one JSON object of \<open>config["block-schedules"]\<close>: a dictionary from key
  names to integers. A key whose value is JSON \<open>null\<close> and an absent key are both
  \<open>None\<close> here; the script reads the only nullable key with
  \<open>schedule.get("weekday", None)\<close>, which does not tell them apart.
\<close>

type_synonym schedule = "string \<rightharpoonup> int"

text \<open>Sequencing of fallible steps: the first exception ends the computation.\<close>

definition and_then :: "py_error + 'a \<Rightarrow> ('a \<Rightarrow> py_error + 'b) \<Rightarrow> py_error + 'b" where
  "and_then m f = (case m of Inl e \<Rightarrow> Inl e | Inr v \<Rightarrow> f v)"

definition getitem :: "schedule \<Rightarrow> string \<Rightarrow> py_error + int" where
  "getitem schedule key = (case schedule key of None \<Rightarrow> Inl KeyError | Some v \<Rightarrow> Inr v)"

subsection \<open>datetime\<close>

record datetime =
  year :: int
  month :: int
  day :: int
  hour :: int
  minute :: int
  second :: int
  microsecond :: int

record timedelta =
  days :: int
  seconds :: int
  microseconds :: int

definition is_leap :: "int \<Rightarrow> bool" where
  "is_leap y = (y mod 4 = 0 \<and> (y mod 100 \<noteq> 0 \<or> y mod 400 = 0))"

definition days_in_month :: "int \<Rightarrow> int \<Rightarrow> int" where
  "days_in_month y m =
     (if m = 2 \<and> is_leap y then 29
      else [0, 31, 28, 31, 30, 31, 30, 31, 31, 30, 31, 30, 31] ! nat m)"

definition days_before_year :: "int \<Rightarrow> int" where
  "days_before_year y0 =
     (let y = y0 - 1 in y * 365 + y div 4 - y div 100 + y div 400)"

definition days_before_month :: "int \<Rightarrow> int \<Rightarrow> int" where
  "days_before_month y m =
     [0, 0, 31, 59, 90, 120, 151, 181, 212, 243, 273, 304, 334] ! nat m
       + (if m > 2 \<and> is_leap y then 1 else 0)"

definition ymd2ord :: "int \<Rightarrow> int \<Rightarrow> int \<Rightarrow> int" where
  "ymd2ord y m d = days_before_year y + days_before_month y m + d"

definition toordinal :: "datetime \<Rightarrow> int" where
  "toordinal dt = ymd2ord (year dt) (month dt) (day dt)"

text \<open>\<open>isoweekday\<close>: Monday is 1, Sunday is 7 (\<open>self.toordinal() % 7 or 7\<close>).\<close>

definition isoweekday :: "datetime \<Rightarrow> int" where
  "isoweekday dt = (let r = toordinal dt mod 7 in if r = 0 then 7 else r)"

text \<open>
  The constructor \<open>datetime(year, month, day, hour, minute)\<close>: seconds and microseconds
  default to 0, and a field out of range raises \<open>ValueError\<close>.
\<close>

definition check_date_fields :: "int \<Rightarrow> int \<Rightarrow> int \<Rightarrow> bool" where
  "check_date_fields y m d =
     (1 \<le> y \<and> y \<le> 9999 \<and> 1 \<le> m \<and> m \<le> 12 \<and> 1 \<le> d \<and> d \<le> days_in_month y m)"

definition check_time_fields :: "int \<Rightarrow> int \<Rightarrow> int \<Rightarrow> int \<Rightarrow> bool" where
  "check_time_fields h mi s us =
     (0 \<le> h \<and> h \<le> 23 \<and> 0 \<le> mi \<and> mi \<le> 59 \<and> 0 \<le> s \<and> s \<le> 59 \<and> 0 \<le> us \<and> us \<le> 999999)"

definition new_datetime :: "int \<Rightarrow> int \<Rightarrow> int \<Rightarrow> int \<Rightarrow> int \<Rightarrow> py_error + datetime" where
  "new_datetime y m d h mi =
     (if check_date_fields y m d \<and> check_time_fields h mi 0 0
      then Inr \<lparr>year = y, month = m, day = d, hour = h, minute = mi,
                second = 0, microsecond = 0\<rparr>
      else Inl ValueError)"

text \<open>
  Two datetimes compare as the tuples
  \<open>(year, month, day, hour, minute, second, microsecond)\<close>, lexicographically.
\<close>

fun cmp_tuple :: "int list \<Rightarrow> int list \<Rightarrow> int" where
  "cmp_tuple [] [] = 0"
| "cmp_tuple [] (y # ys) = -1"
| "cmp_tuple (x # xs) [] = 1"
| "cmp_tuple (x # xs) (y # ys) =
     (if x = y then cmp_tuple xs ys else if x < y then -1 else 1)"

definition dt_fields :: "datetime \<Rightarrow> int list" where
  "dt_fields dt =
     [year dt, month dt, day dt, hour dt, minute dt, second dt, microsecond dt]"

definition dt_le :: "datetime \<Rightarrow> datetime \<Rightarrow> bool" where
  "dt_le a b = (cmp_tuple (dt_fields a) (dt_fields b) \<le> 0)"

definition dt_ge :: "datetime \<Rightarrow> datetime \<Rightarrow> bool" where
  "dt_ge a b = (cmp_tuple (dt_fields a) (dt_fields b) \<ge> 0)"

text \<open>
  \<open>a - b\<close> on datetimes is a timedelta, normalised so that
  \<open>0 \<le> seconds < 86400\<close> and \<open>0 \<le> microseconds < 1000000\<close>; \<open>days\<close> carries the sign.
\<close>

definition new_timedelta :: "int \<Rightarrow> int \<Rightarrow> int \<Rightarrow> timedelta" where
  "new_timedelta d s us =
     (let total = (d * 86400 + s) * 1000000 + us
      in \<lparr>days = total div 86400000000,
          seconds = (total mod 86400000000) div 1000000,
          microseconds = total mod 1000000\<rparr>)"

definition dt_sub :: "datetime \<Rightarrow> datetime \<Rightarrow> timedelta" where
  "dt_sub a b =
     new_timedelta (toordinal a - toordinal b)
       ((second a + minute a * 60 + hour a * 3600) - (second b + minute b * 60 + hour b * 3600))
       (microsecond a - microsecond b)"

section \<open>Schedules and activation\<close>

text \<open>\<open>get_schedule_weekdays\<close>: the schedule's weekday alone, or \<open>range(1, 8)\<close>.\<close>

definition get_schedule_weekdays :: "schedule \<Rightarrow> int list" where
  "get_schedule_weekdays schedule =
     (case schedule ''weekday'' of Some w \<Rightarrow> [w] | None \<Rightarrow> [1..7])"

definition weekday_diff :: "datetime \<Rightarrow> int \<Rightarrow> int" where
  "weekday_diff currenttime weekday = isoweekday currenttime mod 7 - weekday mod 7"

text \<open>
  The body of the \<open>for weekday in ...\<close> loop of \<open>is_schedule_active\<close>: the value of
  \<open>result\<close> for one weekday.
\<close>

definition weekday_result :: "datetime \<Rightarrow> datetime \<Rightarrow> datetime \<Rightarrow> timedelta \<Rightarrow> int \<Rightarrow> bool" where
  "weekday_result currenttime starttime endtime d weekday =
     (if weekday_diff currenttime weekday = 0 then
        (if days d = 0 then dt_le starttime currenttime \<and> dt_ge endtime currenttime
         else dt_le starttime currenttime)
      else if weekday_diff currenttime weekday = 1 \<or> weekday_diff currenttime weekday = -6 then
        days d \<noteq> 0 \<and> dt_le currenttime endtime
      else False)"

text \<open>The loop itself: it returns at the first weekday whose result is true.\<close>

fun weekday_loop :: "datetime \<Rightarrow> datetime \<Rightarrow> datetime \<Rightarrow> timedelta \<Rightarrow> int list \<Rightarrow> bool" where
  "weekday_loop currenttime starttime endtime d [] = False"
| "weekday_loop currenttime starttime endtime d (weekday # rest) =
     (if weekday_result currenttime starttime endtime d weekday then True
      else weekday_loop currenttime starttime endtime d rest)"

text \<open>
  \<open>is_schedule_active\<close> after its first line: \<open>currenttime\<close> is the value that
  \<open>datetime.today()\<close> returned. The keys are read in the order of the source, so the
  first missing key or bad field is the one that raises.
\<close>

definition is_schedule_active_at :: "datetime \<Rightarrow> schedule \<Rightarrow> py_error + bool" where
  "is_schedule_active_at currenttime schedule =
     and_then (getitem schedule ''start-hour'') (\<lambda>sh.
     and_then (getitem schedule ''start-minute'') (\<lambda>sm.
     and_then (new_datetime (year currenttime) (month currenttime) (day currenttime) sh sm)
       (\<lambda>starttime.
     and_then (getitem schedule ''end-hour'') (\<lambda>eh.
     and_then (getitem schedule ''end-minute'') (\<lambda>em.
     and_then (new_datetime (year currenttime) (month currenttime) (day currenttime) eh em)
       (\<lambda>endtime.
     Inr (weekday_loop currenttime starttime endtime (dt_sub endtime starttime)
            (get_schedule_weekdays schedule))))))))"

section \<open>Strings\<close>

text \<open>\<open>str(n)\<close> for an integer: decimal digits, with a minus sign when negative.\<close>

definition digit_char :: "nat \<Rightarrow> char" where
  "digit_char d = ''0123456789'' ! d"

fun str_nat :: "nat \<Rightarrow> string" where
  "str_nat n = (if n < 10 then [digit_char n] else str_nat (n div 10) @ [digit_char (n mod 10)])"

declare str_nat.simps [simp del]

definition str_int :: "int \<Rightarrow> string" where
  "str_int i = (if i < 0 then CHR ''-'' # str_nat (nat (- i)) else str_nat (nat i))"

text \<open>
  \<open>s.zfill(width)\<close>: zeros on the left up to \<open>width\<close> characters, after a leading sign
  if there is one.
\<close>

definition zfill :: "nat \<Rightarrow> string \<Rightarrow> string" where
  "zfill width s =
     (case s of
        [] \<Rightarrow> replicate width CHR ''0''
      | c # r \<Rightarrow>
          if c = CHR ''+'' \<or> c = CHR ''-''
          then c # replicate (width - length s) CHR ''0'' @ r
          else replicate (width - length s) CHR ''0'' @ s)"

definition newline :: string where
  "newline = [CHR 0x0A]"

text \<open>
  \<open>datetime.strftime\<close>, for the directives the script uses: \<open>%Y\<close> is the year in four
  digits, \<open>%m\<close>, \<open>%d\<close>, \<open>%H\<close>, \<open>%M\<close> and \<open>%S\<close> are two digits each, all padded with zeros;
  every other character of the format is copied.
\<close>

definition directive :: "datetime \<Rightarrow> char \<Rightarrow> string" where
  "directive dt d =
     (if d = CHR ''Y'' then zfill 4 (str_int (year dt))
      else if d = CHR ''m'' then zfill 2 (str_int (month dt))
      else if d = CHR ''d'' then zfill 2 (str_int (day dt))
      else if d = CHR ''H'' then zfill 2 (str_int (hour dt))
      else if d = CHR ''M'' then zfill 2 (str_int (minute dt))
      else if d = CHR ''S'' then zfill 2 (str_int (second dt))
      else if d = CHR ''%'' then ''%''
      else [CHR ''%'', d])"

fun strftime :: "datetime \<Rightarrow> string \<Rightarrow> string" where
  "strftime dt [] = []"
| "strftime dt [c] = [c]"
| "strftime dt (c # d # fmt) =
     (if c = CHR ''%'' then directive dt d @ strftime dt fmt
      else c # strftime dt (d # fmt))"

section \<open>Floating point\<close>

text \<open>
  A Python float is an IEEE 754 binary64 number. It is modelled by the rational it
  denotes, and an arithmetic operation by the exact operation followed by \<open>to_double\<close>,
  rounding to the nearest number with a 53-bit significand, ties to the even one.
  Overflow and subnormal numbers are left out: the values of the script lie between
  \<open>2 powi -12\<close> and \<open>2 powi 12\<close> in magnitude, or are 0.
\<close>

text \<open>\<open>ilog2 x\<close> is the integer part of the binary logarithm of a positive \<open>x\<close>.\<close>

definition ilog2 :: "rat \<Rightarrow> int" where
  "ilog2 x = (if 1 \<le> x then bitlen \<lfloor>x\<rfloor> - 1 else - bitlen (\<lceil>1 / x\<rceil> - 1))"

definition round_half_even :: "rat \<Rightarrow> int" where
  "round_half_even x =
     (let f = \<lfloor>x\<rfloor>; r = x - of_int f
      in if r < 1 / 2 then f else if 1 / 2 < r then f + 1 else if even f then f else f + 1)"

definition to_double :: "rat \<Rightarrow> rat" where
  "to_double x =
     (if x = 0 then 0
      else let e = ilog2 \<bar>x\<bar> - 52
           in of_int (round_half_even (x / 2 powi e)) * 2 powi e)"

text \<open>\<open>int(x)\<close> on a float truncates towards zero.\<close>

definition py_int :: "rat \<Rightarrow> int" where
  "py_int x = (if 0 \<le> x then \<lfloor>x\<rfloor> else \<lceil>x\<rceil>)"

text \<open>\<open>timedelta.total_seconds()\<close>: the microseconds of the difference, divided by \<open>10**6\<close>.\<close>

definition total_microseconds :: "timedelta \<Rightarrow> int" where
  "total_microseconds td = (days td * 86400 + seconds td) * 1000000 + microseconds td"

definition total_seconds :: "timedelta \<Rightarrow> rat" where
  "total_seconds td = to_double (of_int (total_microseconds td) / 1000000)"

section \<open>The system clock\<close>

text \<open>
  One reading of the system clock is a timestamp: an instant, given by the wall-clock
  time it has in the local time zone (\<open>datetime.fromtimestamp(ts)\<close>) and in UTC
  (\<open>datetime.utcfromtimestamp(ts)\<close>). The clock is the sequence of the readings it will
  return, and the state threaded through the script is the number of readings taken so
  far: \<open>datetime.today()\<close> and \<open>time.time()\<close> each take one.
\<close>

record timestamp =
  local_time :: datetime
  utc_time :: datetime

type_synonym clock = "nat \<Rightarrow> timestamp"

definition datetime_today :: "clock \<Rightarrow> nat \<Rightarrow> datetime \<times> nat" where
  "datetime_today clk n = (local_time (clk n), Suc n)"

definition time_time :: "clock \<Rightarrow> nat \<Rightarrow> timestamp \<times> nat" where
  "time_time clk n = (clk n, Suc n)"

text \<open>\<open>is_schedule_active\<close> itself: it reads the clock, then decides.\<close>

definition is_schedule_active :: "clock \<Rightarrow> schedule \<Rightarrow> nat \<Rightarrow> (py_error + bool) \<times> nat" where
  "is_schedule_active clk schedule n =
     (case datetime_today clk n of
        (currenttime, n') \<Rightarrow> (is_schedule_active_at currenttime schedule, n'))"

section \<open>The end date of a schedule\<close>

text \<open>
  \<open>get_end_date_of_schedule\<close>, in three parts: the computation of \<open>endtime\<close> from the
  current time, the formatting of \<open>endtime\<close> with the UTC offset found from the
  timestamp \<open>ts\<close>, and the function itself, which reads the clock for each.
\<close>

definition endtime_of :: "datetime \<Rightarrow> schedule \<Rightarrow> py_error + datetime" where
  "endtime_of currenttime schedule =
     and_then (getitem schedule ''end-hour'') (\<lambda>eh.
     and_then (getitem schedule ''end-minute'') (\<lambda>em.
     new_datetime (year currenttime) (month currenttime) (day currenttime) eh em))"

definition format_end_date :: "datetime \<Rightarrow> timestamp \<Rightarrow> string" where
  "format_end_date endtime ts =
     (let utc_offset = to_double (total_seconds (dt_sub (local_time ts) (utc_time ts)) / 3600);
          offset = zfill 4 (str_int (py_int \<bar>to_double (utc_offset * 100)\<bar>));
          sign = (if utc_offset \<ge> 0 then ''+'' else ''-'')
      in strftime endtime (''%Y-%m-%dT%H:%M:%S'' @ sign @ offset))"

definition get_end_date_of_schedule :: "clock \<Rightarrow> schedule \<Rightarrow> nat \<Rightarrow> (py_error + string) \<times> nat" where
  "get_end_date_of_schedule clk schedule n =
     (case datetime_today clk n of
        (currenttime, n1) \<Rightarrow>
          (case endtime_of currenttime schedule of
             Inl e \<Rightarrow> (Inl e, n1)
           | Inr endtime \<Rightarrow>
               (case time_time clk n1 of
                  (ts, n2) \<Rightarrow> (Inr (format_end_date endtime ts), n2))))"

section \<open>Selecting the active schedule\<close>

text \<open>
  \<open>next(s for s in config["block-schedules"] if is_schedule_active(s))\<close> in \<open>run\<close>:
  the first schedule whose check is true, each check reading the clock. \<open>None\<close> is
  \<open>StopIteration\<close>, after which \<open>run\<close> reports that no schedule is active and exits
  with status 0.
\<close>

fun next_active :: "clock \<Rightarrow> schedule list \<Rightarrow> nat \<Rightarrow> (py_error + schedule option) \<times> nat" where
  "next_active clk [] n = (Inr None, n)"
| "next_active clk (s # rest) n =
     (case is_schedule_active clk s n of
        (Inl e, n') \<Rightarrow> (Inl e, n')
      | (Inr active, n') \<Rightarrow>
          if active then (Inr (Some s), n') else next_active clk rest n')"

text \<open>
  The pass of \<open>run\<close> over the schedules: the selected schedule and its
  \<open>block_end_date\<close>, or \<open>None\<close> when no schedule is active.
\<close>

definition run_pass ::
  "clock \<Rightarrow> schedule list \<Rightarrow> nat \<Rightarrow> (py_error + (schedule \<times> string) option) \<times> nat" where
  "run_pass clk schedules n =
     (case next_active clk schedules n of
        (Inl e, n') \<Rightarrow> (Inl e, n')
      | (Inr None, n') \<Rightarrow> (Inr None, n')
      | (Inr (Some schedule), n') \<Rightarrow>
          (case get_end_date_of_schedule clk schedule n' of
             (Inl e, n'') \<Rightarrow> (Inl e, n'')
           | (Inr block_end_date, n'') \<Rightarrow> (Inr (Some (schedule, block_end_date)), n'')))"

section \<open>Start intervals of the launch script\<close>

text \<open>
  One \<open><dict>\<close> entry of \<open>StartCalendarInterval\<close>: the template of
  \<open>get_launchscript_startintervals\<close> with its three integers filled in.
\<close>

definition startinterval :: "int \<Rightarrow> int \<Rightarrow> int \<Rightarrow> string" where
  "startinterval weekday startminute starthour =
     ''<dict>'' @ newline @
     ''                    <key>Weekday</key>'' @ newline @
     ''                    <integer>'' @ str_int weekday @ ''</integer>'' @ newline @
     ''                    <key>Minute</key>'' @ newline @
     ''                    <integer>'' @ str_int startminute @ ''</integer>'' @ newline @
     ''                    <key>Hour</key>'' @ newline @
     ''                    <integer>'' @ str_int starthour @ ''</integer>'' @ newline @
     ''                </dict>'' @ newline @
     ''                ''"

text \<open>
  The inner loop, over the weekdays of one schedule, and the generator itself, over the
  schedules of \<open>config["block-schedules"]\<close>. Each entry reads \<open>start-minute\<close>, then
  \<open>start-hour\<close>.
\<close>

fun schedule_startintervals :: "schedule \<Rightarrow> int list \<Rightarrow> py_error + string list" where
  "schedule_startintervals schedule [] = Inr []"
| "schedule_startintervals schedule (weekday # rest) =
     and_then (getitem schedule ''start-minute'') (\<lambda>startminute.
     and_then (getitem schedule ''start-hour'') (\<lambda>starthour.
     and_then (schedule_startintervals schedule rest) (\<lambda>entries.
     Inr (startinterval weekday startminute starthour # entries))))"

fun get_launchscript_startintervals :: "schedule list \<Rightarrow> py_error + string list" where
  "get_launchscript_startintervals [] = Inr []"
| "get_launchscript_startintervals (schedule # rest) =
     and_then (schedule_startintervals schedule (get_schedule_weekdays schedule)) (\<lambda>entries.
     and_then (get_launchscript_startintervals rest) (\<lambda>more.
     Inr (entries @ more)))"

section \<open>The data model of the specification\<close>

text \<open>
  A schedule of the data model: the four time keys are present with hours in \<open>[0, 23]\<close>
  and minutes in \<open>[0, 59]\<close>, and the weekday is absent or in \<open>[1, 7]\<close>. The values of
  the keys are named, so that statements can mention them.
\<close>

definition valid_schedule :: "schedule \<Rightarrow> int \<Rightarrow> int \<Rightarrow> int \<Rightarrow> int \<Rightarrow> int option \<Rightarrow> bool" where
  "valid_schedule s sh sm eh em wd =
     (s ''start-hour'' = Some sh \<and> s ''start-minute'' = Some sm \<and>
      s ''end-hour'' = Some eh \<and> s ''end-minute'' = Some em \<and> s ''weekday'' = wd \<and>
      0 \<le> sh \<and> sh \<le> 23 \<and> 0 \<le> sm \<and> sm \<le> 59 \<and>
      0 \<le> eh \<and> eh \<le> 23 \<and> 0 \<le> em \<and> em \<le> 59 \<and>
      (case wd of None \<Rightarrow> True | Some w \<Rightarrow> 1 \<le> w \<and> w \<le> 7))"

text \<open>What \<open>datetime.today()\<close> can return: every field within the range of its type.\<close>

definition valid_datetime :: "datetime \<Rightarrow> bool" where
  "valid_datetime dt =
     (check_date_fields (year dt) (month dt) (day dt) \<and>
      check_time_fields (hour dt) (minute dt) (second dt) (microsecond dt))"

text \<open>The instant on the calendar day of \<open>now\<close> at \<open>h:mi:00\<close>.\<close>

definition at_time :: "datetime \<Rightarrow> int \<Rightarrow> int \<Rightarrow> datetime" where
  "at_time now h mi =
     \<lparr>year = year now, month = month now, day = day now, hour = h, minute = mi,
      second = 0, microsecond = 0\<rparr>"

text \<open>A window crosses midnight when its end, read on the same day, is before its start.\<close>

definition crosses_midnight :: "int \<Rightarrow> int \<Rightarrow> int \<Rightarrow> int \<Rightarrow> bool" where
  "crosses_midnight sh sm eh em = (eh < sh \<or> (eh = sh \<and> em < sm))"

text \<open>The ISO weekday after \<open>w\<close>; Monday follows Sunday.\<close>

definition next_weekday :: "int \<Rightarrow> int" where
  "next_weekday w = w mod 7 + 1"

definition on_weekday :: "datetime \<Rightarrow> int option \<Rightarrow> bool" where
  "on_weekday now wd = (case wd of None \<Rightarrow> True | Some w \<Rightarrow> isoweekday now = w)"

definition on_day_after :: "datetime \<Rightarrow> int option \<Rightarrow> bool" where
  "on_day_after now wd =
     (case wd of None \<Rightarrow> True | Some w \<Rightarrow> isoweekday now = next_weekday w)"


text \<open>Concrete schedules and instants for the examples.\<close>

definition schedule_of :: "int \<Rightarrow> int \<Rightarrow> int \<Rightarrow> int \<Rightarrow> int option \<Rightarrow> schedule" where
  "schedule_of sh sm eh em wd =
     [''start-hour'' \<mapsto> sh, ''start-minute'' \<mapsto> sm, ''end-hour'' \<mapsto> eh,
      ''end-minute'' \<mapsto> em](''weekday'' := wd)"

definition instant :: "int \<Rightarrow> int \<Rightarrow> int \<Rightarrow> int \<Rightarrow> int \<Rightarrow> int \<Rightarrow> int \<Rightarrow> datetime" where
  "instant y m d h mi s us =
     \<lparr>year = y, month = m, day = d, hour = h, minute = mi, second = s, microsecond = us\<rparr>"

text \<open>A schedule of the data model, as a test on the dictionary alone.\<close>

definition in_data_model :: "schedule \<Rightarrow> bool" where
  "in_data_model s =
     (case (s ''start-hour'', s ''start-minute'', s ''end-hour'', s ''end-minute'') of
        (Some sh, Some sm, Some eh, Some em) \<Rightarrow> valid_schedule s sh sm eh em (s ''weekday'')
      | _ \<Rightarrow> False)"

text \<open>
  \<open>select_active(schedules, now)\<close> as the specification words it: the first schedule of
  the sequence that is active at the one instant \<open>now\<close>, or none.
\<close>

definition select_active :: "datetime \<Rightarrow> schedule list \<Rightarrow> schedule option" where
  "select_active now schedules = find (\<lambda>s. is_schedule_active_at now s = Inr True) schedules"

text \<open>A clock that returns the same timestamp at every reading.\<close>

definition steady_clock :: "timestamp \<Rightarrow> clock" where
  "steady_clock ts n = ts"

text \<open>
  A clock that ticks during a pass: 21:59:59 at its first reading, 22:00:01 from the
  second on (Friday 5 January 2024, local time equal to UTC).
\<close>

definition ticking_clock :: clock where
  "ticking_clock n =
     (if n = 0
      then \<lparr>local_time = instant 2024 1 5 21 59 59 0, utc_time = instant 2024 1 5 21 59 59 0\<rparr>
      else \<lparr>local_time = instant 2024 1 5 22 0 1 0, utc_time = instant 2024 1 5 22 0 1 0\<rparr>)"

text \<open>
  The number that \<open>format_end_date\<close> prints after the sign when local time is \<open>off\<close>
  seconds ahead of UTC: \<open>int(abs(utc_offset * 100))\<close> with
  \<open>utc_offset = off / 3600\<close>, both operations in double precision.
\<close>

definition offset_hundredths :: "int \<Rightarrow> int" where
  "offset_hundredths off = py_int \<bar>to_double (to_double (of_int off / 3600) * 100)\<bar>"

text \<open>
  The shape of a string: in the pattern, \<open>D\<close> stands for a decimal digit, \<open>S\<close> for a
  sign, and every other character for itself.
\<close>

definition is_digit :: "char \<Rightarrow> bool" where
  "is_digit c = (c \<in> set ''0123456789'')"

definition matches :: "char \<Rightarrow> char \<Rightarrow> bool" where
  "matches p c =
     (if p = CHR ''D'' then is_digit c
      else if p = CHR ''S'' then c = CHR ''+'' \<or> c = CHR ''-''
      else c = p)"

definition has_shape :: "string \<Rightarrow> string \<Rightarrow> bool" where
  "has_shape pattern str = list_all2 matches pattern str"

text \<open>
  The offset suffix as the specification words it: the sign, then the magnitude of the
  offset in hundredths of an hour, rounded to the nearest hundredth, in four digits.
\<close>

definition spec_offset_suffix :: "int \<Rightarrow> string" where
  "spec_offset_suffix off =
     (if 0 \<le> off then ''+'' else ''-'') @
     zfill 4 (str_int (round (of_int \<bar>off\<bar> * 100 / 3600 :: rat)))"

text \<open>A clock that stands at Friday 5 January 2024, 23:00 local time, 5 hours 40 minutes ahead of UTC.\<close>

definition clock_utc_0540 :: clock where
  "clock_utc_0540 =
     steady_clock \<lparr>local_time = instant 2024 1 5 23 0 0 0, utc_time = instant 2024 1 5 17 20 0 0\<rparr>"

text \<open>
  Reading an entry back. \<open>int_of_str\<close> is the integer that a decimal numeral denotes, and
  \<open>entry_tuple\<close> is the calendar trigger of an entry: the integers under its
  \<open>Weekday\<close>, \<open>Hour\<close> and \<open>Minute\<close> keys, each found after the text that precedes it
  and read up to the next \<open><\<close>.
\<close>

definition digit_value :: "char \<Rightarrow> nat" where
  "digit_value c = length (takeWhile (\<lambda>d. d \<noteq> c) ''0123456789'')"

definition decimal_value :: "string \<Rightarrow> nat" where
  "decimal_value s = foldl (\<lambda>a c. 10 * a + digit_value c) 0 s"

definition int_of_str :: "string \<Rightarrow> int" where
  "int_of_str s =
     (case s of
        [] \<Rightarrow> 0
      | c # r \<Rightarrow> if c = CHR ''-'' then - int (decimal_value r) else int (decimal_value s))"

definition before_weekday :: string where
  "before_weekday =
     ''<dict>'' @ [CHR 0x0A] @
     ''                    <key>Weekday</key>'' @ [CHR 0x0A] @
     ''                    <integer>''"

definition before_minute :: string where
  "before_minute =
     ''</integer>'' @ [CHR 0x0A] @
     ''                    <key>Minute</key>'' @ [CHR 0x0A] @
     ''                    <integer>''"

definition before_hour :: string where
  "before_hour =
     ''</integer>'' @ [CHR 0x0A] @
     ''                    <key>Hour</key>'' @ [CHR 0x0A] @
     ''                    <integer>''"

definition integer_at :: "string \<Rightarrow> string \<Rightarrow> string \<times> string" where
  "integer_at before s =
     (let t = drop (length before) s
      in (takeWhile (\<lambda>c. c \<noteq> CHR ''<'') t, dropWhile (\<lambda>c. c \<noteq> CHR ''<'') t))"

definition entry_tuple :: "string \<Rightarrow> int \<times> int \<times> int" where
  "entry_tuple entry =
     (case integer_at before_weekday entry of (wd, r1) \<Rightarrow>
      case integer_at before_minute r1 of (mi, r2) \<Rightarrow>
      case integer_at before_hour r2 of (hr, r3) \<Rightarrow>
        (int_of_str wd, int_of_str hr, int_of_str mi))"

text \<open>
  The offset suffix of ISO 8601, which the docstring of \<open>get_end_date_of_schedule\<close>
  names as the format of the result: the sign, then the hours and the minutes of the
  offset in two digits each.
\<close>

definition iso8601_offset_suffix :: "int \<Rightarrow> string" where
  "iso8601_offset_suffix off =
     (if 0 \<le> off then ''+'' else ''-'') @
     zfill 2 (str_int (\<bar>off\<bar> div 3600)) @ zfill 2 (str_int (\<bar>off\<bar> mod 3600 div 60))"

text \<open>The same instant for a clock 5 hours 30 minutes ahead of UTC.\<close>

definition clock_utc_0530 :: clock where
  "clock_utc_0530 =
     steady_clock \<lparr>local_time = instant 2024 1 5 23 0 0 0, utc_time = instant 2024 1 5 17 30 0 0\<rparr>"

section \<open>Properties of the activation check\<close>

lemma cmp_tuple_flip: "cmp_tuple ys xs = - cmp_tuple xs ys"
  by (induction xs ys rule: cmp_tuple.induct) auto

lemma dt_ge_iff_le: "dt_ge a b = dt_le b a"
  unfolding dt_ge_def dt_le_def using cmp_tuple_flip [of "dt_fields b" "dt_fields a"] by simp

lemma weekday_loop_iff:
  "weekday_loop c s e d ws = (\<exists>w \<in> set ws. weekday_result c s e d w)"
  by (induction ws) auto

lemma isoweekday_range: "1 \<le> isoweekday dt \<and> isoweekday dt \<le> 7"
  unfolding isoweekday_def Let_def
  using pos_mod_bound [of 7 "toordinal dt"] pos_mod_sign [of 7 "toordinal dt"]
  by auto

lemma new_datetime_valid:
  assumes "valid_datetime now" "0 \<le> h" "h \<le> 23" "0 \<le> mi" "mi \<le> 59"
  shows "new_datetime (year now) (month now) (day now) h mi = Inr (at_time now h mi)"
  using assms by (simp add: new_datetime_def valid_datetime_def check_time_fields_def at_time_def)

lemma days_dt_sub_at_time:
  assumes "0 \<le> sh" "sh \<le> 23" "0 \<le> sm" "sm \<le> 59" "0 \<le> eh" "eh \<le> 23" "0 \<le> em" "em \<le> 59"
  shows "days (dt_sub (at_time now eh em) (at_time now sh sm)) =
           (if crosses_midnight sh sm eh em then -1 else 0)"
proof -
  let ?x = "em * 60 + eh * 3600 - (sm * 60 + sh * 3600)"
  have b: "- 86400 < ?x" "?x < 86400" using assms by auto
  have c: "crosses_midnight sh sm eh em \<longleftrightarrow> ?x < 0"
    unfolding crosses_midnight_def using assms by auto
  have "days (dt_sub (at_time now eh em) (at_time now sh sm)) = (?x * 1000000) div 86400000000"
    by (simp add: dt_sub_def at_time_def new_timedelta_def toordinal_def Let_def)
  also have "\<dots> = ?x div 86400" by simp
  also have "\<dots> = (if ?x < 0 then -1 else 0)"
    using b by (auto simp: div_pos_neg_trivial zdiv_eq_0_iff intro: )
  finally show ?thesis using c by simp
qed

lemma is_schedule_active_at_loop:
  assumes "valid_schedule s sh sm eh em wd" "valid_datetime now"
  shows "is_schedule_active_at now s =
           Inr (weekday_loop now (at_time now sh sm) (at_time now eh em)
                  (dt_sub (at_time now eh em) (at_time now sh sm))
                  (case wd of Some w \<Rightarrow> [w] | None \<Rightarrow> [1..7]))"
  using assms
  by (simp add: is_schedule_active_at_def valid_schedule_def getitem_def and_then_def
      new_datetime_valid get_schedule_weekdays_def)

lemma weekday_cases:
  "1 \<le> (w::int) \<Longrightarrow> w \<le> 7 \<Longrightarrow> w = 1 \<or> w = 2 \<or> w = 3 \<or> w = 4 \<or> w = 5 \<or> w = 6 \<or> w = 7"
  by arith

lemma weekday_diff_today:
  assumes "1 \<le> w" "w \<le> 7"
  shows "weekday_diff now w = 0 \<longleftrightarrow> isoweekday now = w"
  using weekday_cases [OF assms] weekday_cases [of "isoweekday now"] isoweekday_range [of now]
  unfolding weekday_diff_def by auto

lemma weekday_diff_yesterday:
  assumes "1 \<le> w" "w \<le> 7"
  shows "weekday_diff now w = 1 \<or> weekday_diff now w = -6 \<longleftrightarrow> isoweekday now = next_weekday w"
  using weekday_cases [OF assms] weekday_cases [of "isoweekday now"] isoweekday_range [of now]
  unfolding weekday_diff_def next_weekday_def by auto

lemma weekday_result_valid:
  assumes "1 \<le> w" "w \<le> 7"
  shows "weekday_result now st en d w =
           (if isoweekday now = w then
              (if days d = 0 then dt_le st now \<and> dt_le now en else dt_le st now)
            else if isoweekday now = next_weekday w then days d \<noteq> 0 \<and> dt_le now en
            else False)"
  unfolding weekday_result_def
  using weekday_diff_today [OF assms, of now] weekday_diff_yesterday [OF assms, of now]
  by (simp add: dt_ge_iff_le)

lemma next_weekday_neq: "1 \<le> w \<Longrightarrow> w \<le> 7 \<Longrightarrow> next_weekday w \<noteq> w"
  using weekday_cases [of w] unfolding next_weekday_def by auto

lemma ex_yesterday: "\<exists>w. 1 \<le> w \<and> w \<le> 7 \<and> isoweekday now = next_weekday w"
proof -
  let ?w = "(isoweekday now + 5) mod 7 + 1"
  have "1 \<le> ?w \<and> ?w \<le> 7 \<and> isoweekday now = next_weekday ?w"
    using weekday_cases [of "isoweekday now"] isoweekday_range [of now]
    unfolding next_weekday_def by auto
  then show ?thesis by blast
qed

lemma weekday_loop_every_day:
  "weekday_loop now st en d [1..7] =
     (if days d = 0 then dt_le st now \<and> dt_le now en else dt_le st now \<or> dt_le now en)"
proof -
  have r: "weekday_loop now st en d [1..7] =
             (\<exists>w. 1 \<le> w \<and> w \<le> 7 \<and> weekday_result now st en d w)"
    by (auto simp: weekday_loop_iff)
  obtain y where y: "1 \<le> y" "y \<le> 7" "isoweekday now = next_weekday y"
    using ex_yesterday by blast
  have t: "1 \<le> isoweekday now" "isoweekday now \<le> 7"
    using isoweekday_range [of now] by auto
  show ?thesis
  proof (cases "days d = 0")
    case True
    have "(\<exists>w. 1 \<le> w \<and> w \<le> 7 \<and> weekday_result now st en d w) \<longleftrightarrow> dt_le st now \<and> dt_le now en"
    proof
      assume "\<exists>w. 1 \<le> w \<and> w \<le> 7 \<and> weekday_result now st en d w"
      then obtain w where w: "1 \<le> w" "w \<le> 7" "weekday_result now st en d w" by blast
      then show "dt_le st now \<and> dt_le now en"
        using True by (simp add: weekday_result_valid split: if_splits)
    next
      assume "dt_le st now \<and> dt_le now en"
      then have "weekday_result now st en d (isoweekday now)"
        using True t by (simp add: weekday_result_valid)
      then show "\<exists>w. 1 \<le> w \<and> w \<le> 7 \<and> weekday_result now st en d w"
        using t by blast
    qed
    then show ?thesis using True r by simp
  next
    case False
    have "(\<exists>w. 1 \<le> w \<and> w \<le> 7 \<and> weekday_result now st en d w) \<longleftrightarrow> dt_le st now \<or> dt_le now en"
    proof
      assume "\<exists>w. 1 \<le> w \<and> w \<le> 7 \<and> weekday_result now st en d w"
      then obtain w where w: "1 \<le> w" "w \<le> 7" "weekday_result now st en d w" by blast
      then show "dt_le st now \<or> dt_le now en"
        using False by (simp add: weekday_result_valid split: if_splits)
    next
      assume a: "dt_le st now \<or> dt_le now en"
      show "\<exists>w. 1 \<le> w \<and> w \<le> 7 \<and> weekday_result now st en d w"
      proof (cases "dt_le st now")
        case True
        then have "weekday_result now st en d (isoweekday now)"
          using False t by (simp add: weekday_result_valid)
        then show ?thesis using t by blast
      next
        case nst: False
        then have "dt_le now en" using a by simp
        then have "weekday_result now st en d y"
          using False y next_weekday_neq [OF y(1,2)] by (simp add: weekday_result_valid)
        then show ?thesis using y by blast
      qed
    qed
    then show ?thesis using False r by simp
  qed
qed

lemma is_schedule_active_at_char:
  assumes "valid_schedule s sh sm eh em wd" "valid_datetime now"
  shows "is_schedule_active_at now s =
           Inr (if crosses_midnight sh sm eh em
                then (on_weekday now wd \<and> dt_le (at_time now sh sm) now) \<or>
                     (on_day_after now wd \<and> dt_le now (at_time now eh em))
                else on_weekday now wd \<and> dt_le (at_time now sh sm) now \<and>
                     dt_le now (at_time now eh em))"
proof -
  have r: "0 \<le> sh" "sh \<le> 23" "0 \<le> sm" "sm \<le> 59" "0 \<le> eh" "eh \<le> 23" "0 \<le> em" "em \<le> 59"
    using assms(1) by (auto simp: valid_schedule_def)
  note d = days_dt_sub_at_time [OF r, of now]
  show ?thesis
  proof (cases wd)
    case None
    then show ?thesis
      using is_schedule_active_at_loop [OF assms] d
      by (simp add: weekday_loop_every_day on_weekday_def on_day_after_def)
  next
    case (Some w)
    then have w: "1 \<le> w" "w \<le> 7" using assms(1) by (auto simp: valid_schedule_def)
    show ?thesis
      using is_schedule_active_at_loop [OF assms] d Some next_weekday_neq [OF w]
      by (auto simp: weekday_result_valid [OF w] on_weekday_def on_day_after_def)
  qed
qed

lemma dt_le_at_time_now:
  assumes "0 \<le> second now" "0 \<le> microsecond now"
  shows "dt_le (at_time now h mi) now \<longleftrightarrow>
           h < hour now \<or> (h = hour now \<and> mi \<le> minute now)"
  using assms by (auto simp: dt_le_def dt_fields_def at_time_def)

lemma dt_le_now_at_time:
  assumes "0 \<le> second now" "0 \<le> microsecond now"
  shows "dt_le now (at_time now h mi) \<longleftrightarrow>
           hour now < h \<or> (hour now = h \<and> (minute now < mi \<or>
             (minute now = mi \<and> second now = 0 \<and> microsecond now = 0)))"
  using assms by (auto simp: dt_le_def dt_fields_def at_time_def)

lemma valid_schedule_of:
  assumes "0 \<le> sh" "sh \<le> 23" "0 \<le> sm" "sm \<le> 59" "0 \<le> eh" "eh \<le> 23" "0 \<le> em" "em \<le> 59"
    and "case wd of None \<Rightarrow> True | Some w \<Rightarrow> 1 \<le> w \<and> w \<le> 7"
  shows "valid_schedule (schedule_of sh sm eh em wd) sh sm eh em wd"
  using assms by (simp add: valid_schedule_def schedule_of_def)

lemma instant_sel:
  "year (instant y m d h mi s us) = y" "month (instant y m d h mi s us) = m"
  "day (instant y m d h mi s us) = d" "hour (instant y m d h mi s us) = h"
  "minute (instant y m d h mi s us) = mi" "second (instant y m d h mi s us) = s"
  "microsecond (instant y m d h mi s us) = us"
  by (simp_all add: instant_def)

lemma at_time_instant: "at_time (instant y m d h mi s us) h' mi' = instant y m d h' mi' 0 0"
  by (simp add: at_time_def instant_def)

lemma dt_le_instant:
  "dt_le (instant y m d h1 mi1 s1 us1) (instant y m d h2 mi2 s2 us2) =
     (cmp_tuple [h1, mi1, s1, us1] [h2, mi2, s2, us2] \<le> 0)"
  by (simp add: dt_le_def dt_fields_def instant_def)

lemma isoweekday_jan_2024:
  assumes "1 \<le> d" "d \<le> 7"
  shows "isoweekday (instant 2024 1 d h mi s us) = d"
  using weekday_cases [OF assms]
  by (auto simp: isoweekday_def toordinal_def instant_def ymd2ord_def days_before_year_def
      days_before_month_def is_leap_def)

lemma valid_instant_jan_2024:
  assumes "1 \<le> d" "d \<le> 31" "0 \<le> h" "h \<le> 23" "0 \<le> mi" "mi \<le> 59" "0 \<le> s" "s \<le> 59"
    "0 \<le> us" "us \<le> 999999"
  shows "valid_datetime (instant 2024 1 d h mi s us)"
  using assms
  by (simp add: valid_datetime_def instant_def check_date_fields_def check_time_fields_def
      days_in_month_def)

text \<open>
  C2. For a schedule of the data model whose window does not cross midnight,
  \<open>is_schedule_active\<close> is true exactly when now is on the schedule's weekday (any day
  when the weekday is unset) and \<open>start \<le> now \<le> end\<close>, both bounds included.
\<close>

theorem same_day_window_active_iff:
  assumes "valid_schedule s sh sm eh em wd" "valid_datetime now"
    and "\<not> crosses_midnight sh sm eh em"
  shows "is_schedule_active_at now s =
           Inr (on_weekday now wd \<and> dt_le (at_time now sh sm) now \<and>
                dt_le now (at_time now eh em))"
  using is_schedule_active_at_char [OF assms(1,2)] assms(3) by simp

text \<open>
  The examples of the specification: 09:00 to 17:00 on Mondays; 1 January 2024 is a
  Monday.
\<close>

theorem same_day_window_active_iff_witness:
  "is_schedule_active_at (instant 2024 1 1 9 0 0 0) (schedule_of 9 0 17 0 (Some 1)) = Inr True \<and>
   is_schedule_active_at (instant 2024 1 1 17 0 0 0) (schedule_of 9 0 17 0 (Some 1)) = Inr True \<and>
   is_schedule_active_at (instant 2024 1 1 8 59 0 0) (schedule_of 9 0 17 0 (Some 1)) = Inr False \<and>
   is_schedule_active_at (instant 2024 1 1 17 1 0 0) (schedule_of 9 0 17 0 (Some 1)) = Inr False \<and>
   is_schedule_active_at (instant 2024 1 2 10 0 0 0) (schedule_of 9 0 17 0 (Some 1)) = Inr False"
proof -
  have v: "valid_schedule (schedule_of 9 0 17 0 (Some 1)) 9 0 17 0 (Some 1)"
    by (rule valid_schedule_of) simp_all
  have c: "\<not> crosses_midnight 9 0 17 0" by (simp add: crosses_midnight_def)
  have t: "valid_datetime (instant 2024 1 d h mi 0 0)"
    if "1 \<le> d" "d \<le> 31" "0 \<le> h" "h \<le> 23" "0 \<le> mi" "mi \<le> 59" for d h mi
    using that by (intro valid_instant_jan_2024) simp_all
  have e: "is_schedule_active_at (instant 2024 1 d h mi 0 0) (schedule_of 9 0 17 0 (Some 1)) =
             Inr (d = 1 \<and> cmp_tuple [9, 0, 0, 0] [h, mi, 0, 0] \<le> 0 \<and>
                  cmp_tuple [h, mi, 0, 0] [17, 0, 0, 0] \<le> 0)"
    if "1 \<le> d" "d \<le> 7" "0 \<le> h" "h \<le> 23" "0 \<le> mi" "mi \<le> 59" for d h mi
    using same_day_window_active_iff [OF v t c, of d h mi] that
    by (simp add: on_weekday_def isoweekday_jan_2024 at_time_instant dt_le_instant)
  show ?thesis
    using e [of 1 9 0] e [of 1 17 0] e [of 1 8 59] e [of 1 17 1] e [of 2 10 0] by simp
qed


lemma upto_1_7: "[1..7] = [1, 2, 3, 4, 5, 6, 7::int]"
  by (simp add: upto_rec1)

lemma isoweekday_jan_2024_wk2:
  assumes "1 \<le> d" "d \<le> 7"
  shows "isoweekday (instant 2024 1 (d + 7) h mi s us) = d"
  using weekday_cases [OF assms]
  by (auto simp: isoweekday_def toordinal_def instant_def ymd2ord_def days_before_year_def
      days_before_month_def is_leap_def)

text \<open>
  C1 (as stated). The third part does not hold for every schedule whose window crosses
  midnight. When the weekday is unset the schedule runs every day, so the day after a
  day of the schedule is a day of the schedule too: the schedule 22:00 to 02:00 is
  active on Saturday 6 January 2024 at 23:00, which is the day after Friday and after
  the end time.
\<close>

theorem every_day_following_day_counterexample:
  "crosses_midnight 22 0 2 0 \<and>
   get_schedule_weekdays (schedule_of 22 0 2 0 None) = [1, 2, 3, 4, 5, 6, 7] \<and>
   isoweekday (instant 2024 1 6 23 0 0 0) = next_weekday 5 \<and>
   \<not> dt_le (instant 2024 1 6 23 0 0 0) (at_time (instant 2024 1 6 23 0 0 0) 2 0) \<and>
   is_schedule_active_at (instant 2024 1 6 23 0 0 0) (schedule_of 22 0 2 0 None) = Inr True"
proof -
  let ?now = "instant 2024 1 6 23 0 0 0"
  have v: "valid_schedule (schedule_of 22 0 2 0 None) 22 0 2 0 None"
    by (rule valid_schedule_of) simp_all
  have t: "valid_datetime ?now" by (rule valid_instant_jan_2024) simp_all
  have c: "crosses_midnight 22 0 2 0" by (simp add: crosses_midnight_def)
  have w: "get_schedule_weekdays (schedule_of 22 0 2 0 None) = [1, 2, 3, 4, 5, 6, 7]"
    by (simp add: get_schedule_weekdays_def schedule_of_def upto_1_7)
  have i: "isoweekday ?now = next_weekday 5"
    by (simp add: isoweekday_jan_2024 next_weekday_def)
  have e: "\<not> dt_le ?now (at_time ?now 2 0)" by (simp add: at_time_instant dt_le_instant)
  have a: "is_schedule_active_at ?now (schedule_of 22 0 2 0 None) = Inr True"
    using is_schedule_active_at_char [OF v t] c
    by (simp add: on_weekday_def at_time_instant dt_le_instant)
  show ?thesis using c w i e a by (simp only: simp_thms)
qed

text \<open>
  C1 (amended). For a schedule of the data model whose window crosses midnight,
  \<open>is_schedule_active\<close> is true when now is on a weekday of the schedule at or after
  the start (the \<open>weekday_diff = 0\<close> branch), and true when now is on the day after a
  weekday of the schedule at or before the end (the \<open>weekday_diff = 1\<close> or \<open>-6\<close>
  branch); it is true in no other case. When the schedule has a weekday, it is false on
  the following day after the end. When the weekday is unset, every day is a day of the
  schedule, and after the end the schedule is active exactly from the start on.
\<close>

theorem midnight_crossing_window_active:
  assumes "valid_schedule s sh sm eh em wd" "valid_datetime now"
    and "crosses_midnight sh sm eh em"
  shows "is_schedule_active_at now s =
           Inr ((on_weekday now wd \<and> dt_le (at_time now sh sm) now) \<or>
                (on_day_after now wd \<and> dt_le now (at_time now eh em))) \<and>
         (on_weekday now wd \<and> dt_le (at_time now sh sm) now \<longrightarrow>
            is_schedule_active_at now s = Inr True) \<and>
         (on_day_after now wd \<and> dt_le now (at_time now eh em) \<longrightarrow>
            is_schedule_active_at now s = Inr True) \<and>
         (\<forall>w. wd = Some w \<and> isoweekday now = next_weekday w \<and>
              \<not> dt_le now (at_time now eh em) \<longrightarrow>
            is_schedule_active_at now s = Inr False) \<and>
         (wd = None \<and> \<not> dt_le now (at_time now eh em) \<longrightarrow>
            is_schedule_active_at now s = Inr (dt_le (at_time now sh sm) now))"
proof -
  have e: "is_schedule_active_at now s =
             Inr ((on_weekday now wd \<and> dt_le (at_time now sh sm) now) \<or>
                  (on_day_after now wd \<and> dt_le now (at_time now eh em)))"
    using is_schedule_active_at_char [OF assms(1,2)] assms(3) by simp
  have f: "is_schedule_active_at now s = Inr False"
    if "wd = Some w" "isoweekday now = next_weekday w" "\<not> dt_le now (at_time now eh em)" for w
  proof -
    have "1 \<le> w" "w \<le> 7" using assms(1) that(1) by (auto simp: valid_schedule_def)
    then have "next_weekday w \<noteq> w" by (rule next_weekday_neq)
    then show ?thesis using e that by (simp add: on_weekday_def on_day_after_def)
  qed
  have n: "is_schedule_active_at now s = Inr (dt_le (at_time now sh sm) now)"
    if "wd = None" "\<not> dt_le now (at_time now eh em)"
    using e that by (simp add: on_weekday_def on_day_after_def)
  show ?thesis using e f n by auto
qed

text \<open>
  The example of the specification, 22:00 to 02:00 on Fridays, at Friday 23:00,
  Saturday 01:00, Saturday 03:00 and Saturday 23:00 (5 and 6 January 2024), and the
  same window every day at the three Saturday instants.
\<close>

theorem midnight_crossing_window_active_witness:
  "is_schedule_active_at (instant 2024 1 5 23 0 0 0) (schedule_of 22 0 2 0 (Some 5)) = Inr True \<and>
   is_schedule_active_at (instant 2024 1 6 1 0 0 0) (schedule_of 22 0 2 0 (Some 5)) = Inr True \<and>
   is_schedule_active_at (instant 2024 1 6 3 0 0 0) (schedule_of 22 0 2 0 (Some 5)) = Inr False \<and>
   is_schedule_active_at (instant 2024 1 6 23 0 0 0) (schedule_of 22 0 2 0 (Some 5)) = Inr False \<and>
   is_schedule_active_at (instant 2024 1 6 1 0 0 0) (schedule_of 22 0 2 0 None) = Inr True \<and>
   is_schedule_active_at (instant 2024 1 6 3 0 0 0) (schedule_of 22 0 2 0 None) = Inr False \<and>
   is_schedule_active_at (instant 2024 1 6 23 0 0 0) (schedule_of 22 0 2 0 None) = Inr True"
proof -
  have v: "valid_schedule (schedule_of 22 0 2 0 wd) 22 0 2 0 wd"
    if "case wd of None \<Rightarrow> True | Some w \<Rightarrow> 1 \<le> w \<and> w \<le> 7" for wd
    using that by (intro valid_schedule_of) simp_all
  have c: "crosses_midnight 22 0 2 0" by (simp add: crosses_midnight_def)
  have t: "valid_datetime (instant 2024 1 d h 0 0 0)"
    if "1 \<le> d" "d \<le> 31" "0 \<le> h" "h \<le> 23" for d h
    using that by (intro valid_instant_jan_2024) simp_all
  have n: "next_weekday 5 = 6" by (simp add: next_weekday_def)
  have e: "is_schedule_active_at (instant 2024 1 d h 0 0 0) (schedule_of 22 0 2 0 wd) =
             Inr ((on_weekday (instant 2024 1 d h 0 0 0) wd \<and>
                     cmp_tuple [22, 0, 0, 0] [h, 0, 0, 0] \<le> 0) \<or>
                  (on_day_after (instant 2024 1 d h 0 0 0) wd \<and>
                     cmp_tuple [h, 0, 0, 0] [2, 0, 0, 0] \<le> 0))"
    if "case wd of None \<Rightarrow> True | Some w \<Rightarrow> 1 \<le> w \<and> w \<le> 7"
      "1 \<le> d" "d \<le> 31" "0 \<le> h" "h \<le> 23" for wd d h
    using midnight_crossing_window_active [OF v [OF that(1)] t [OF that(2-5)] c]
    by (simp add: at_time_instant dt_le_instant)
  show ?thesis
    using e [of "Some 5" 5 23] e [of "Some 5" 6 1] e [of "Some 5" 6 3] e [of "Some 5" 6 23]
      e [of None 6 1] e [of None 6 3] e [of None 6 23]
    by (simp add: n on_weekday_def on_day_after_def isoweekday_jan_2024)
qed

text \<open>
  C10. For a schedule whose window does not cross midnight, on the schedule's weekday:
  within the end minute the schedule is active only at the instant
  \<open>end_hour:end_minute:00.000000\<close>, since \<open>endtime\<close> has zero seconds and microseconds
  and now is compared with them; within the start minute it is active at every instant
  that is not after the end, so at every instant when the end is not in the same minute.
\<close>

theorem sub_minute_resolution:
  assumes "valid_schedule s sh sm eh em wd" "valid_datetime now"
    and "\<not> crosses_midnight sh sm eh em" and "on_weekday now wd"
  shows "(hour now = eh \<and> minute now = em \<longrightarrow>
            is_schedule_active_at now s = Inr (second now = 0 \<and> microsecond now = 0)) \<and>
         (hour now = sh \<and> minute now = sm \<longrightarrow>
            is_schedule_active_at now s = Inr (dt_le now (at_time now eh em))) \<and>
         (hour now = sh \<and> minute now = sm \<and> (sh, sm) \<noteq> (eh, em) \<longrightarrow>
            is_schedule_active_at now s = Inr True)"
proof -
  have p: "0 \<le> second now" "0 \<le> microsecond now"
    using assms(2) by (auto simp: valid_datetime_def check_time_fields_def)
  show ?thesis
    using is_schedule_active_at_char [OF assms(1,2)] assms(3,4)
    by (auto simp: dt_le_at_time_now [OF p] dt_le_now_at_time [OF p] crosses_midnight_def)
qed

text \<open>09:00 to 17:00 on Mondays, at 17:00:00, 17:00:30, 17:00:00.000001 and 09:00:59.999999.\<close>

theorem sub_minute_resolution_witness:
  "is_schedule_active_at (instant 2024 1 1 17 0 0 0) (schedule_of 9 0 17 0 (Some 1)) = Inr True \<and>
   is_schedule_active_at (instant 2024 1 1 17 0 30 0) (schedule_of 9 0 17 0 (Some 1)) = Inr False \<and>
   is_schedule_active_at (instant 2024 1 1 17 0 0 1) (schedule_of 9 0 17 0 (Some 1)) = Inr False \<and>
   is_schedule_active_at (instant 2024 1 1 9 0 59 999999) (schedule_of 9 0 17 0 (Some 1)) = Inr True"
proof -
  have v: "valid_schedule (schedule_of 9 0 17 0 (Some 1)) 9 0 17 0 (Some 1)"
    by (rule valid_schedule_of) simp_all
  have c: "\<not> crosses_midnight 9 0 17 0" by (simp add: crosses_midnight_def)
  have t: "valid_datetime (instant 2024 1 1 h 0 sec us)"
    if "0 \<le> h" "h \<le> 23" "0 \<le> sec" "sec \<le> 59" "0 \<le> us" "us \<le> 999999" for h sec us
    using that by (intro valid_instant_jan_2024) simp_all
  have o: "on_weekday (instant 2024 1 1 h 0 sec us) (Some 1)" for h sec us
    by (simp add: on_weekday_def isoweekday_jan_2024)
  show ?thesis
    using sub_minute_resolution [OF v t c o, of 17 0 0]
      sub_minute_resolution [OF v t c o, of 17 30 0]
      sub_minute_resolution [OF v t c o, of 17 0 1]
      sub_minute_resolution [OF v t c o, of 9 59 999999]
    by (simp add: instant_sel at_time_instant dt_le_instant)
qed

lemma is_schedule_active_at_weekday_mod:
  assumes "w mod 7 = w' mod 7"
  shows "is_schedule_active_at now (s(''weekday'' \<mapsto> w)) =
           is_schedule_active_at now (s(''weekday'' \<mapsto> w'))"
proof -
  have "weekday_diff now w = weekday_diff now w'"
    using assms by (simp add: weekday_diff_def)
  then have "weekday_result now st en d w = weekday_result now st en d w'" for st en d
    by (simp add: weekday_result_def)
  then show ?thesis
    by (simp add: is_schedule_active_at_def getitem_def get_schedule_weekdays_def)
qed

lemma weekday_diff_minus6:
  "weekday_diff now w = -6 \<longleftrightarrow> isoweekday now = 7 \<and> w mod 7 = 6"
proof -
  have "0 \<le> w mod 7" "w mod 7 < 7" by simp_all
  then show ?thesis
    using weekday_cases [of "isoweekday now"] isoweekday_range [of now]
    unfolding weekday_diff_def by auto
qed

text \<open>
  C5 (as stated). On a Monday the weekday difference to a Sunday schedule
  (\<open>weekday = 7\<close>) is \<open>1 % 7 - 7 % 7 = 1\<close>, not \<open>-6\<close>: the schedule 22:00 to 02:00 on
  Sundays is active on Monday 8 January 2024 at 01:00, through the \<open>weekday_diff = 1\<close>
  branch.
\<close>

theorem sunday_wraparound_branch_counterexample:
  "weekday_diff (instant 2024 1 8 1 0 0 0) 7 \<noteq> -6 \<and>
   weekday_diff (instant 2024 1 8 1 0 0 0) 7 = 1 \<and>
   isoweekday (instant 2024 1 8 1 0 0 0) = 1 \<and>
   is_schedule_active_at (instant 2024 1 8 1 0 0 0) (schedule_of 22 0 2 0 (Some 7)) = Inr True"
proof -
  have i: "isoweekday (instant 2024 1 8 1 0 0 0) = 1"
    by (simp add: isoweekday_def toordinal_def instant_def ymd2ord_def days_before_year_def
        days_before_month_def is_leap_def)
  have v: "valid_schedule (schedule_of 22 0 2 0 (Some 7)) 22 0 2 0 (Some 7)"
    by (rule valid_schedule_of) simp_all
  have t: "valid_datetime (instant 2024 1 8 1 0 0 0)"
    by (rule valid_instant_jan_2024) simp_all
  have "is_schedule_active_at (instant 2024 1 8 1 0 0 0) (schedule_of 22 0 2 0 (Some 7)) = Inr True"
    using is_schedule_active_at_char [OF v t] i
    by (simp add: crosses_midnight_def on_weekday_def on_day_after_def next_weekday_def
        at_time_instant dt_le_instant)
  then show ?thesis using i by (simp add: weekday_diff_def)
qed

text \<open>
  C5 (amended). A schedule with \<open>weekday = 7\<close> whose window crosses midnight is active
  on Monday at or before its end time, and the branch taken there is
  \<open>weekday_diff = 1\<close>; \<open>weekday_diff = -6\<close> arises only on a Sunday for a schedule whose
  weekday is 6 modulo 7 (Saturday). For every now, a schedule encoded with
  \<open>weekday = 7\<close> gives the same result as the same schedule encoded with \<open>weekday = 0\<close>,
  and in general the result depends on the weekday only through its value modulo 7.
\<close>

theorem sunday_wraparound:
  shows "(valid_schedule s sh sm eh em (Some 7) \<and> valid_datetime now \<and>
          crosses_midnight sh sm eh em \<and> isoweekday now = 1 \<and>
          dt_le now (at_time now eh em) \<longrightarrow>
            weekday_diff now 7 = 1 \<and> is_schedule_active_at now s = Inr True) \<and>
         (weekday_diff now w = -6 \<longleftrightarrow> isoweekday now = 7 \<and> w mod 7 = 6) \<and>
         is_schedule_active_at now (c(''weekday'' \<mapsto> 7)) =
           is_schedule_active_at now (c(''weekday'' \<mapsto> 0)) \<and>
         (w mod 7 = w' mod 7 \<longrightarrow>
            is_schedule_active_at now (c(''weekday'' \<mapsto> w)) =
              is_schedule_active_at now (c(''weekday'' \<mapsto> w')))"
proof -
  have a: "weekday_diff now 7 = 1 \<and> is_schedule_active_at now s = Inr True"
    if h: "valid_schedule s sh sm eh em (Some 7)" "valid_datetime now"
      "crosses_midnight sh sm eh em" "isoweekday now = 1" "dt_le now (at_time now eh em)"
  proof -
    have "is_schedule_active_at now s = Inr True"
      using is_schedule_active_at_char [OF h(1,2)] h(3,4,5)
      by (simp add: on_weekday_def on_day_after_def next_weekday_def)
    then show ?thesis using h(4) by (simp add: weekday_diff_def)
  qed
  have b: "is_schedule_active_at now (c(''weekday'' \<mapsto> 7)) =
             is_schedule_active_at now (c(''weekday'' \<mapsto> 0))"
    by (rule is_schedule_active_at_weekday_mod) simp
  show ?thesis
    using a b weekday_diff_minus6 [of now w] is_schedule_active_at_weekday_mod [of w w' now c]
    by blast
qed

text \<open>
  The Sunday schedule 22:00 to 02:00 on Monday 8 January 2024 at 01:00, and the same
  schedule with its weekday rewritten to 0.
\<close>

theorem sunday_wraparound_witness:
  "weekday_diff (instant 2024 1 8 1 0 0 0) 7 = 1 \<and>
   is_schedule_active_at (instant 2024 1 8 1 0 0 0) (schedule_of 22 0 2 0 (Some 7)) = Inr True \<and>
   is_schedule_active_at (instant 2024 1 8 1 0 0 0)
     ((schedule_of 22 0 2 0 (Some 7))(''weekday'' \<mapsto> 0)) = Inr True"
proof -
  let ?now = "instant 2024 1 8 1 0 0 0"
  let ?s = "schedule_of 22 0 2 0 (Some 7)"
  have i: "isoweekday ?now = 1"
    by (simp add: isoweekday_def toordinal_def instant_def ymd2ord_def days_before_year_def
        days_before_month_def is_leap_def)
  have v: "valid_schedule ?s 22 0 2 0 (Some 7)"
    by (rule valid_schedule_of) simp_all
  have t: "valid_datetime ?now"
    by (rule valid_instant_jan_2024) simp_all
  have c: "crosses_midnight 22 0 2 0" by (simp add: crosses_midnight_def)
  have e: "dt_le ?now (at_time ?now 2 0)" by (simp add: at_time_instant dt_le_instant)
  have s7: "?s(''weekday'' \<mapsto> 7) = ?s" by (simp add: schedule_of_def)
  note sw = sunday_wraparound [of ?s 22 0 2 0 ?now 7 ?s 0]
  have a: "weekday_diff ?now 7 = 1 \<and> is_schedule_active_at ?now ?s = Inr True"
    using sw v t c i e by blast
  have b: "is_schedule_active_at ?now (?s(''weekday'' \<mapsto> 7)) =
             is_schedule_active_at ?now (?s(''weekday'' \<mapsto> 0))"
    using sw by blast
  show ?thesis using a b s7 by metis
qed

section \<open>Properties of the start intervals\<close>

lemma schedule_startintervals_present:
  assumes "s ''start-minute'' = Some sm" "s ''start-hour'' = Some sh"
  shows "schedule_startintervals s ws = Inr (map (\<lambda>w. startinterval w sm sh) ws)"
  using assms by (induction ws) (simp_all add: and_then_def getitem_def)

lemma get_launchscript_startintervals_append:
  "get_launchscript_startintervals (xs @ ys) =
     and_then (get_launchscript_startintervals xs) (\<lambda>a.
     and_then (get_launchscript_startintervals ys) (\<lambda>b. Inr (a @ b)))"
  by (induction xs) (simp_all add: and_then_def split: sum.splits)

section \<open>Properties of the selection and of the clock readings\<close>

lemma in_data_model_iff:
  "in_data_model s \<longleftrightarrow> (\<exists>sh sm eh em. valid_schedule s sh sm eh em (s ''weekday''))"
  by (auto simp: in_data_model_def valid_schedule_def split: option.splits)

lemma is_schedule_active_at_total:
  assumes "in_data_model s" "valid_datetime now"
  shows "\<exists>b. is_schedule_active_at now s = Inr b"
  using assms is_schedule_active_at_char [of s _ _ _ _ "s ''weekday''" now]
  unfolding in_data_model_iff by blast

lemma is_schedule_active_reads:
  "is_schedule_active clk s n = (is_schedule_active_at (local_time (clk n)) s, Suc n)"
  by (simp add: is_schedule_active_def datetime_today_def)

lemma next_active_steady:
  assumes "\<forall>k < length ss. local_time (clk (n + k)) = now"
    and "\<forall>s \<in> set ss. \<exists>b. is_schedule_active_at now s = Inr b"
  shows "fst (next_active clk ss n) = Inr (find (\<lambda>s. is_schedule_active_at now s = Inr True) ss)"
  using assms
proof (induction ss arbitrary: n)
  case Nil
  then show ?case by simp
next
  case (Cons s ss)
  have h: "local_time (clk n) = now" using Cons.prems(1) by force
  obtain b where b: "is_schedule_active_at now s = Inr b" using Cons.prems(2) by auto
  have r: "\<forall>k < length ss. local_time (clk (Suc n + k)) = now"
    using Cons.prems(1) by force
  show ?case
  proof (cases b)
    case True
    then show ?thesis using b h by (simp add: is_schedule_active_reads)
  next
    case False
    then show ?thesis
      using b h Cons.IH [OF r] Cons.prems(2) by (simp add: is_schedule_active_reads)
  qed
qed

lemma next_active_none:
  "next_active clk ss n = (Inr None, m) \<Longrightarrow>
     m = n + length ss \<and>
     (\<forall>j < length ss. is_schedule_active_at (local_time (clk (n + j))) (ss ! j) = Inr False)"
proof (induction ss arbitrary: n)
  case Nil
  then show ?case by simp
next
  case (Cons s ss)
  from Cons.prems have a: "is_schedule_active_at (local_time (clk n)) s = Inr False"
    and t: "next_active clk ss (Suc n) = (Inr None, m)"
    by (auto simp: is_schedule_active_reads split: sum.splits if_splits)
  from Cons.IH [OF t] have m: "m = Suc n + length ss"
    and r: "\<And>j. j < length ss \<Longrightarrow>
              is_schedule_active_at (local_time (clk (Suc n + j))) (ss ! j) = Inr False"
    by auto
  have "is_schedule_active_at (local_time (clk (n + j))) ((s # ss) ! j) = Inr False"
    if "j < length (s # ss)" for j
    using that a r [of "j - 1"] by (cases j) auto
  then show ?case using m by simp
qed

lemma next_active_some:
  "next_active clk ss n = (Inr (Some s), m) \<Longrightarrow>
     \<exists>i < length ss. ss ! i = s \<and> m = n + i + 1 \<and>
       is_schedule_active_at (local_time (clk (n + i))) s = Inr True \<and>
       (\<forall>j < i. is_schedule_active_at (local_time (clk (n + j))) (ss ! j) = Inr False)"
proof (induction ss arbitrary: n)
  case Nil
  then show ?case by simp
next
  case (Cons x ss)
  show ?case
  proof (cases "is_schedule_active_at (local_time (clk n)) x = Inr True")
    case True
    then have "x = s" "m = n + 1" using Cons.prems by (auto simp: is_schedule_active_reads)
    then show ?thesis using True by (intro exI [of _ 0]) simp
  next
    case False
    with Cons.prems have a: "is_schedule_active_at (local_time (clk n)) x = Inr False"
      and t: "next_active clk ss (Suc n) = (Inr (Some s), m)"
      by (auto simp: is_schedule_active_reads split: sum.splits if_splits)
    from Cons.IH [OF t] obtain i where i: "i < length ss" "ss ! i = s" "m = Suc n + i + 1"
      "is_schedule_active_at (local_time (clk (Suc n + i))) s = Inr True"
      "\<And>j. j < i \<Longrightarrow> is_schedule_active_at (local_time (clk (Suc n + j))) (ss ! j) = Inr False"
      by blast
    have "is_schedule_active_at (local_time (clk (n + j))) ((x # ss) ! j) = Inr False"
      if "j < Suc i" for j
      using that a i(5) [of "j - 1"] by (cases j) auto
    then show ?thesis
      using i(1-4) by (intro exI [of _ "Suc i"]) simp
  qed
qed

lemma get_end_date_of_schedule_reads:
  "endtime_of (local_time (clk n)) s = Inr e \<Longrightarrow>
     get_end_date_of_schedule clk s n = (Inr (format_end_date e (clk (n + 1))), n + 2)"
  by (simp add: get_end_date_of_schedule_def datetime_today_def time_time_def)

lemma endtime_of_valid:
  assumes "valid_schedule s sh sm eh em wd" "valid_datetime now"
  shows "endtime_of now s = Inr (at_time now eh em)"
  using assms
  by (simp add: endtime_of_def valid_schedule_def getitem_def and_then_def new_datetime_valid)

lemma find_first:
  "P a \<Longrightarrow> \<forall>x \<in> set pre. \<not> P x \<Longrightarrow> find P (pre @ a # post) = Some a"
  by (induction pre) simp_all

lemma in_data_model_schedule_of:
  assumes "0 \<le> sh" "sh \<le> 23" "0 \<le> sm" "sm \<le> 59" "0 \<le> eh" "eh \<le> 23" "0 \<le> em" "em \<le> 59"
    and "case wd of None \<Rightarrow> True | Some w \<Rightarrow> 1 \<le> w \<and> w \<le> 7"
  shows "in_data_model (schedule_of sh sm eh em wd)"
proof -
  have "schedule_of sh sm eh em wd ''weekday'' = wd" by (simp add: schedule_of_def)
  then show ?thesis
    unfolding in_data_model_iff using valid_schedule_of [OF assms] by metis
qed

text \<open>
  C6. For a sequence of schedules of the data model, scanned while the clock shows
  \<open>now\<close>, the selection returns the first schedule of the sequence that is active at
  \<open>now\<close>: the earlier one when several are active. It returns \<open>None\<close>, which is not an
  error, when the sequence is empty or no schedule is active.
\<close>

theorem select_first_active:
  assumes "\<forall>s \<in> set schedules. in_data_model s" "valid_datetime now"
    and "\<forall>k < length schedules. local_time (clk (n + k)) = now"
  shows "fst (next_active clk schedules n) =
           Inr (find (\<lambda>s. is_schedule_active_at now s = Inr True) schedules) \<and>
         (schedules = [] \<longrightarrow> fst (next_active clk schedules n) = Inr None) \<and>
         ((\<forall>s \<in> set schedules. is_schedule_active_at now s \<noteq> Inr True) \<longrightarrow>
            fst (next_active clk schedules n) = Inr None) \<and>
         (\<forall>pre a post.
            schedules = pre @ a # post \<and> is_schedule_active_at now a = Inr True \<and>
            (\<forall>s \<in> set pre. is_schedule_active_at now s \<noteq> Inr True) \<longrightarrow>
              fst (next_active clk schedules n) = Inr (Some a))"
proof -
  have t: "\<forall>s \<in> set schedules. \<exists>b. is_schedule_active_at now s = Inr b"
    using assms(1,2) is_schedule_active_at_total by blast
  have a: "fst (next_active clk schedules n) =
             Inr (find (\<lambda>s. is_schedule_active_at now s = Inr True) schedules)"
    by (rule next_active_steady [OF assms(3) t])
  have b: "schedules = [] \<longrightarrow> fst (next_active clk schedules n) = Inr None"
    using a by simp
  have c: "(\<forall>s \<in> set schedules. is_schedule_active_at now s \<noteq> Inr True) \<longrightarrow>
             fst (next_active clk schedules n) = Inr None"
    using a by (simp add: find_None_iff)
  have d: "fst (next_active clk schedules n) = Inr (Some x)"
    if "schedules = pre @ x # post" "is_schedule_active_at now x = Inr True"
      "\<forall>s \<in> set pre. is_schedule_active_at now s \<noteq> Inr True" for pre x post
    using a that find_first [of "\<lambda>s. is_schedule_active_at now s = Inr True" x pre post]
    by simp
  show ?thesis using a b c d by blast
qed

text \<open>
  Monday 1 January 2024 at 10:00: the schedules 09:00 to 17:00 on Mondays and 00:00 to
  23:59 every day are both active, and the one that comes first is selected; the
  schedule 22:00 to 02:00 on Fridays is not active.
\<close>

theorem select_first_active_witness:
  "fst (next_active
         (steady_clock \<lparr>local_time = instant 2024 1 1 10 0 0 0, utc_time = instant 2024 1 1 9 0 0 0\<rparr>)
         [schedule_of 9 0 17 0 (Some 1), schedule_of 0 0 23 59 None] 0) =
     Inr (Some (schedule_of 9 0 17 0 (Some 1))) \<and>
   fst (next_active
         (steady_clock \<lparr>local_time = instant 2024 1 1 10 0 0 0, utc_time = instant 2024 1 1 9 0 0 0\<rparr>)
         [schedule_of 0 0 23 59 None, schedule_of 9 0 17 0 (Some 1)] 0) =
     Inr (Some (schedule_of 0 0 23 59 None)) \<and>
   fst (next_active
         (steady_clock \<lparr>local_time = instant 2024 1 1 10 0 0 0, utc_time = instant 2024 1 1 9 0 0 0\<rparr>)
         [schedule_of 22 0 2 0 (Some 5)] 0) = Inr None \<and>
   fst (next_active
         (steady_clock \<lparr>local_time = instant 2024 1 1 10 0 0 0, utc_time = instant 2024 1 1 9 0 0 0\<rparr>)
         [] 0) = Inr None"
proof -
  let ?now = "instant 2024 1 1 10 0 0 0"
  let ?clk = "steady_clock \<lparr>local_time = ?now, utc_time = instant 2024 1 1 9 0 0 0\<rparr>"
  let ?office = "schedule_of 9 0 17 0 (Some 1)"
  let ?always = "schedule_of 0 0 23 59 None"
  let ?night = "schedule_of 22 0 2 0 (Some 5)"
  have m: "in_data_model ?office" "in_data_model ?always" "in_data_model ?night"
    by (rule in_data_model_schedule_of; simp)+
  have t: "valid_datetime ?now" by (rule valid_instant_jan_2024) simp_all
  have k: "\<forall>k < length ss. local_time (?clk (0 + k)) = ?now" for ss :: "schedule list"
    by (simp add: steady_clock_def)
  have i: "isoweekday ?now = 1" by (simp add: isoweekday_jan_2024)
  have o: "is_schedule_active_at ?now ?office = Inr True"
    using is_schedule_active_at_char [OF valid_schedule_of t, of 9 0 17 0 "Some 1"] i
    by (simp add: crosses_midnight_def on_weekday_def at_time_instant dt_le_instant)
  have a: "is_schedule_active_at ?now ?always = Inr True"
    using is_schedule_active_at_char [OF valid_schedule_of t, of 0 0 23 59 None]
    by (simp add: crosses_midnight_def on_weekday_def at_time_instant dt_le_instant)
  have f: "is_schedule_active_at ?now ?night = Inr False"
    using is_schedule_active_at_char [OF valid_schedule_of t, of 22 0 2 0 "Some 5"] i
    by (simp add: crosses_midnight_def on_weekday_def on_day_after_def next_weekday_def
        at_time_instant dt_le_instant)
  let ?P = "\<lambda>s. is_schedule_active_at ?now s = Inr True"
  have e: "fst (next_active ?clk ss 0) = Inr (find ?P ss)"
    if "\<forall>s \<in> set ss. in_data_model s" for ss
    using select_first_active [OF that t k [of ss]] by (rule conjunct1)
  have 1: "fst (next_active ?clk [?office, ?always] 0) = Inr (Some ?office)"
  proof -
    have "find ?P [?office, ?always] = Some ?office" using o by simp
    then show ?thesis using e [of "[?office, ?always]"] m by (simp only: list.set) simp
  qed
  have 2: "fst (next_active ?clk [?always, ?office] 0) = Inr (Some ?always)"
  proof -
    have "find ?P [?always, ?office] = Some ?always" using a by simp
    then show ?thesis using e [of "[?always, ?office]"] m by (simp only: list.set) simp
  qed
  have 3: "fst (next_active ?clk [?night] 0) = Inr None"
  proof -
    have "find ?P [?night] = None" using f by simp
    then show ?thesis using e [of "[?night]"] m by (simp only: list.set) simp
  qed
  have 4: "fst (next_active ?clk [] 0) = Inr None"
    using e [of "[]"] by simp
  show ?thesis using 1 2 3 4 by (simp only: simp_thms)
qed

lemma run_pass_steady:
  assumes "\<forall>k \<le> length ss + 1. clk (n + k) = ts" "local_time ts = now"
    and "\<forall>s \<in> set ss. in_data_model s" "valid_datetime now"
  shows "fst (run_pass clk ss n) =
           (case select_active now ss of
              None \<Rightarrow> Inr None
            | Some s \<Rightarrow> and_then (endtime_of now s) (\<lambda>e. Inr (Some (s, format_end_date e ts))))"
proof -
  have c: "\<forall>k < length ss. local_time (clk (n + k)) = now"
    using assms(1,2) by simp
  have t: "\<forall>s \<in> set ss. \<exists>b. is_schedule_active_at now s = Inr b"
    using assms(3,4) is_schedule_active_at_total by blast
  note sel = next_active_steady [OF c t]
  obtain r m where rm: "next_active clk ss n = (r, m)" by (cases "next_active clk ss n")
  then have r: "r = Inr (select_active now ss)" using sel by (simp add: select_active_def)
  show ?thesis
  proof (cases "select_active now ss")
    case None
    then show ?thesis using rm r by (simp add: run_pass_def)
  next
    case (Some s)
    then have nx: "next_active clk ss n = (Inr (Some s), m)" using rm r by simp
    from next_active_some [OF nx] obtain i where i: "i < length ss" "ss ! i = s" "m = n + i + 1"
      by blast
    have sm: "in_data_model s" using i(1,2) assms(3) by auto
    then obtain sh sm' eh em where v: "valid_schedule s sh sm' eh em (s ''weekday'')"
      unfolding in_data_model_iff by blast
    have "clk (n + (i + 1)) = ts" "clk (n + (i + 2)) = ts"
      using assms(1) [rule_format, of "i + 1"] assms(1) [rule_format, of "i + 2"] i(1)
      by simp_all
    then have cm: "clk m = ts" "clk (m + 1) = ts"
      using i(3) by (simp_all add: add.assoc)
    have en: "endtime_of (local_time (clk m)) s = Inr (at_time now eh em)"
      using endtime_of_valid [OF v assms(4)] cm(1) assms(2) by simp
    show ?thesis
      using nx Some get_end_date_of_schedule_reads [where clk = clk and n = m, OF en] cm en
        assms(2)
      by (simp add: run_pass_def and_then_def)
  qed
qed

text \<open>
  C8 (as stated). The clock is not read once per pass. With the schedules 22:00 to
  23:00 and 21:00 to 22:00 on Fridays, in this order, and a clock that shows 21:59:59
  when the first is checked and 22:00:01 when the second is, the pass takes two
  readings and finds no active schedule, although at either of the two instants one of
  the schedules is active. A pass that finds its second schedule active takes four
  readings: two for the checks and two in \<open>get_end_date_of_schedule\<close>.
\<close>

theorem clock_read_once_counterexample:
  "next_active ticking_clock
     [schedule_of 22 0 23 0 (Some 5), schedule_of 21 0 22 0 (Some 5)] 0 = (Inr None, 2) \<and>
   is_schedule_active_at (local_time (ticking_clock 0)) (schedule_of 21 0 22 0 (Some 5)) = Inr True \<and>
   is_schedule_active_at (local_time (ticking_clock 1)) (schedule_of 22 0 23 0 (Some 5)) = Inr True \<and>
   snd (run_pass ticking_clock
          [schedule_of 22 0 23 0 (Some 5), schedule_of 0 0 23 59 None] 0) = 4"
proof -
  let ?late = "schedule_of 22 0 23 0 (Some 5)"
  let ?early = "schedule_of 21 0 22 0 (Some 5)"
  let ?always = "schedule_of 0 0 23 59 None"
  let ?t0 = "instant 2024 1 5 21 59 59 0"
  let ?t1 = "instant 2024 1 5 22 0 1 0"
  have c: "local_time (ticking_clock 0) = ?t0" "local_time (ticking_clock (Suc 0)) = ?t1"
    "local_time (ticking_clock 2) = ?t1"
    by (simp_all add: ticking_clock_def)
  have t: "valid_datetime ?t0" "valid_datetime ?t1"
    by (rule valid_instant_jan_2024; simp)+
  have i: "isoweekday ?t0 = 5" "isoweekday ?t1 = 5" by (simp_all add: isoweekday_jan_2024)
  have l0: "is_schedule_active_at ?t0 ?late = Inr False"
    using is_schedule_active_at_char [OF valid_schedule_of t(1), of 22 0 23 0 "Some 5"] i
    by (simp add: crosses_midnight_def on_weekday_def at_time_instant dt_le_instant)
  have e0: "is_schedule_active_at ?t0 ?early = Inr True"
    using is_schedule_active_at_char [OF valid_schedule_of t(1), of 21 0 22 0 "Some 5"] i
    by (simp add: crosses_midnight_def on_weekday_def at_time_instant dt_le_instant)
  have l1: "is_schedule_active_at ?t1 ?late = Inr True"
    using is_schedule_active_at_char [OF valid_schedule_of t(2), of 22 0 23 0 "Some 5"] i
    by (simp add: crosses_midnight_def on_weekday_def at_time_instant dt_le_instant)
  have e1: "is_schedule_active_at ?t1 ?early = Inr False"
    using is_schedule_active_at_char [OF valid_schedule_of t(2), of 21 0 22 0 "Some 5"] i
    by (simp add: crosses_midnight_def on_weekday_def at_time_instant dt_le_instant)
  have a1: "is_schedule_active_at ?t1 ?always = Inr True"
    using is_schedule_active_at_char [OF valid_schedule_of t(2), of 0 0 23 59 None]
    by (simp add: crosses_midnight_def on_weekday_def at_time_instant dt_le_instant)
  have a: "next_active ticking_clock [?late, ?early] 0 = (Inr None, 2)"
    using l0 e1 c by (simp add: is_schedule_active_reads)
  have n: "next_active ticking_clock [?late, ?always] 0 = (Inr (Some ?always), 2)"
    using l0 a1 c by (simp add: is_schedule_active_reads)
  have en: "endtime_of (local_time (ticking_clock 2)) ?always = Inr (at_time ?t1 23 59)"
    using endtime_of_valid [OF valid_schedule_of t(2), of 0 0 23 59 None] c by simp
  have r: "snd (run_pass ticking_clock [?late, ?always] 0) = 4"
    using n get_end_date_of_schedule_reads [where clk = ticking_clock and n = 2, OF en]
    by (simp add: run_pass_def)
  show ?thesis using a e0 l1 r c by simp
qed

text \<open>
  C8 (amended). Every call of \<open>is_schedule_active\<close> reads the clock once, for itself,
  and checks its schedule against that reading: a pass takes one reading for each
  schedule it examines, up to and including the first active one.
  \<open>get_end_date_of_schedule\<close> then takes two more readings, one for the date and one
  for the UTC offset. The schedules are evaluated against one consistent now when the
  clock returns the same timestamp at every reading of the pass; the pass then selects
  the first schedule active at that instant, with the end date computed from it.
\<close>

theorem pass_clock_readings:
  shows "is_schedule_active clk s n = (is_schedule_active_at (local_time (clk n)) s, n + 1) \<and>
         (next_active clk ss n = (Inr None, m) \<longrightarrow>
            m = n + length ss \<and>
            (\<forall>j < length ss.
               is_schedule_active_at (local_time (clk (n + j))) (ss ! j) = Inr False)) \<and>
         (next_active clk ss n = (Inr (Some a), m) \<longrightarrow>
            (\<exists>i < length ss. ss ! i = a \<and> m = n + i + 1 \<and>
               is_schedule_active_at (local_time (clk (n + i))) a = Inr True \<and>
               (\<forall>j < i. is_schedule_active_at (local_time (clk (n + j))) (ss ! j) = Inr False))) \<and>
         (endtime_of (local_time (clk n)) s = Inr e \<longrightarrow>
            get_end_date_of_schedule clk s n = (Inr (format_end_date e (clk (n + 1))), n + 2)) \<and>
         ((\<forall>k \<le> length ss + 1. clk (n + k) = ts) \<and> (\<forall>x \<in> set ss. in_data_model x) \<and>
          valid_datetime (local_time ts) \<longrightarrow>
            fst (run_pass clk ss n) =
              (case select_active (local_time ts) ss of
                 None \<Rightarrow> Inr None
               | Some x \<Rightarrow>
                   and_then (endtime_of (local_time ts) x)
                     (\<lambda>e. Inr (Some (x, format_end_date e ts)))))"
proof -
  have 1: "is_schedule_active clk s n = (is_schedule_active_at (local_time (clk n)) s, n + 1)"
    by (simp add: is_schedule_active_reads)
  have 5: "fst (run_pass clk ss n) =
             (case select_active (local_time ts) ss of
                None \<Rightarrow> Inr None
              | Some x \<Rightarrow>
                  and_then (endtime_of (local_time ts) x)
                    (\<lambda>e. Inr (Some (x, format_end_date e ts))))"
    if "\<forall>k \<le> length ss + 1. clk (n + k) = ts" "\<forall>x \<in> set ss. in_data_model x"
      "valid_datetime (local_time ts)"
    using run_pass_steady [OF that(1) refl that(2,3)] .
  show ?thesis
    using 1 5 next_active_none [of clk ss n m] next_active_some [of clk ss n a m]
      get_end_date_of_schedule_reads [of clk n s e]
    by blast
qed

text \<open>
  With the ticking clock, the check of the schedule 22:00 to 23:00 takes the reading
  21:59:59 and the end date of the every-day schedule is computed from the third and
  fourth readings. With a clock that stands at Friday 22:00:01 the pass over the two
  schedules selects the first.
\<close>

theorem pass_clock_readings_witness:
  "is_schedule_active ticking_clock (schedule_of 22 0 23 0 (Some 5)) 0 = (Inr False, 1) \<and>
   get_end_date_of_schedule ticking_clock (schedule_of 0 0 23 59 None) 2 =
     (Inr (format_end_date (instant 2024 1 5 23 59 0 0) (ticking_clock 3)), 4) \<and>
   fst (run_pass (steady_clock (ticking_clock 1))
          [schedule_of 22 0 23 0 (Some 5), schedule_of 0 0 23 59 None] 0) =
     Inr (Some (schedule_of 22 0 23 0 (Some 5),
                format_end_date (instant 2024 1 5 23 0 0 0) (ticking_clock 1)))"
proof -
  let ?late = "schedule_of 22 0 23 0 (Some 5)"
  let ?always = "schedule_of 0 0 23 59 None"
  let ?t0 = "instant 2024 1 5 21 59 59 0"
  let ?t1 = "instant 2024 1 5 22 0 1 0"
  let ?ts = "ticking_clock 1"
  have c: "local_time (ticking_clock 0) = ?t0" "local_time ?ts = ?t1"
    "local_time (ticking_clock 2) = ?t1"
    by (simp_all add: ticking_clock_def)
  have t: "valid_datetime ?t0" "valid_datetime ?t1"
    by (rule valid_instant_jan_2024; simp)+
  have i: "isoweekday ?t0 = 5" "isoweekday ?t1 = 5" by (simp_all add: isoweekday_jan_2024)
  have l0: "is_schedule_active_at ?t0 ?late = Inr False"
    using is_schedule_active_at_char [OF valid_schedule_of t(1), of 22 0 23 0 "Some 5"] i
    by (simp add: crosses_midnight_def on_weekday_def at_time_instant dt_le_instant)
  have l1: "is_schedule_active_at ?t1 ?late = Inr True"
    using is_schedule_active_at_char [OF valid_schedule_of t(2), of 22 0 23 0 "Some 5"] i
    by (simp add: crosses_midnight_def on_weekday_def at_time_instant dt_le_instant)
  have m: "\<forall>x \<in> set [?late, ?always]. in_data_model x"
    by (simp add: in_data_model_schedule_of)
  have k: "\<forall>k \<le> length [?late, ?always] + 1. steady_clock ?ts (0 + k) = ?ts"
    by (simp add: steady_clock_def)
  have en: "endtime_of (local_time (ticking_clock 2)) ?always = Inr (instant 2024 1 5 23 59 0 0)"
    using endtime_of_valid [OF valid_schedule_of t(2), of 0 0 23 59 None] c
    by (simp add: at_time_instant)
  have el: "endtime_of ?t1 ?late = Inr (instant 2024 1 5 23 0 0 0)"
    using endtime_of_valid [OF valid_schedule_of t(2), of 22 0 23 0 "Some 5"]
    by (simp add: at_time_instant)
  have sel: "select_active ?t1 [?late, ?always] = Some ?late"
    using l1 by (simp add: select_active_def)
  note p = pass_clock_readings [of ticking_clock ?late 0]
  have 1: "is_schedule_active ticking_clock ?late 0 = (Inr False, 1)"
    using pass_clock_readings [of ticking_clock ?late 0] l0 c by simp
  have 2: "get_end_date_of_schedule ticking_clock ?always 2 =
             (Inr (format_end_date (instant 2024 1 5 23 59 0 0) (ticking_clock 3)), 4)"
    using pass_clock_readings [of ticking_clock ?always 2 _ _ _ "instant 2024 1 5 23 59 0 0"] en
    by simp
  have 3: "fst (run_pass (steady_clock ?ts) [?late, ?always] 0) =
             Inr (Some (?late, format_end_date (instant 2024 1 5 23 0 0 0) ?ts))"
    using pass_clock_readings [of "steady_clock ?ts" ?late 0 "[?late, ?always]" _ _ _ ?ts]
      k m t(2) c(2) sel el
    by (simp add: and_then_def)
  show ?thesis using 1 2 3 by (simp only: simp_thms)
qed

section \<open>Absence of exceptions\<close>

lemma next_active_total:
  assumes "\<forall>x \<in> set ss. in_data_model x" "\<forall>k. valid_datetime (local_time (clk k))"
  shows "\<exists>r m. next_active clk ss n = (Inr r, m) \<and> (case r of None \<Rightarrow> True | Some x \<Rightarrow> x \<in> set ss)"
  using assms(1)
proof (induction ss arbitrary: n)
  case Nil
  then show ?case by simp
next
  case (Cons s ss)
  obtain b where b: "is_schedule_active_at (local_time (clk n)) s = Inr b"
    using is_schedule_active_at_total [of s "local_time (clk n)"] Cons.prems assms(2) by auto
  show ?case
  proof (cases b)
    case True
    then show ?thesis using b by (simp add: is_schedule_active_reads)
  next
    case False
    obtain r m where "next_active clk ss (Suc n) = (Inr r, m)"
      "case r of None \<Rightarrow> True | Some x \<Rightarrow> x \<in> set ss"
      using Cons.IH [of "Suc n"] Cons.prems by auto
    then show ?thesis
      using b False by (auto simp: is_schedule_active_reads split: option.splits)
  qed
qed

lemma get_end_date_of_schedule_total:
  assumes "in_data_model s" "valid_datetime (local_time (clk n))"
  shows "\<exists>str. get_end_date_of_schedule clk s n = (Inr str, n + 2)"
proof -
  obtain sh sm eh em where v: "valid_schedule s sh sm eh em (s ''weekday'')"
    using assms(1) unfolding in_data_model_iff by blast
  show ?thesis
    using get_end_date_of_schedule_reads [where clk = clk and n = n,
        OF endtime_of_valid [OF v assms(2)]]
    by blast
qed

text \<open>
  C9. On schedules of the data model, with a clock whose readings are datetimes,
  \<open>is_schedule_active\<close>, \<open>get_end_date_of_schedule\<close> and
  \<open>get_launchscript_startintervals\<close> return a value and raise nothing, and so do the
  selection and the pass of \<open>run\<close>; the selection may return \<open>None\<close>, which is a result
  and not an exception.
\<close>

theorem no_domain_errors:
  assumes "in_data_model s" "\<forall>x \<in> set ss. in_data_model x"
    and "\<forall>k. valid_datetime (local_time (clk k))"
  shows "(\<exists>b. is_schedule_active clk s n = (Inr b, n + 1)) \<and>
         (\<exists>str. get_end_date_of_schedule clk s n = (Inr str, n + 2)) \<and>
         (\<exists>entries. get_launchscript_startintervals [s] = Inr entries) \<and>
         (\<exists>r m. next_active clk ss n = (Inr r, m)) \<and>
         (\<exists>r m. run_pass clk ss n = (Inr r, m))"
proof -
  obtain sh sm eh em where v: "valid_schedule s sh sm eh em (s ''weekday'')"
    using assms(1) unfolding in_data_model_iff by blast
  have 1: "\<exists>b. is_schedule_active clk s n = (Inr b, n + 1)"
    using is_schedule_active_at_total [OF assms(1), of "local_time (clk n)"] assms(3)
    by (auto simp: is_schedule_active_reads)
  have 2: "\<exists>str. get_end_date_of_schedule clk s n = (Inr str, n + 2)"
    using get_end_date_of_schedule_total [OF assms(1)] assms(3) by blast
  have 3: "\<exists>entries. get_launchscript_startintervals [s] = Inr entries"
    using v schedule_startintervals_present [of s]
    by (auto simp: valid_schedule_def and_then_def)
  obtain r m where nx: "next_active clk ss n = (Inr r, m)"
    "case r of None \<Rightarrow> True | Some x \<Rightarrow> x \<in> set ss"
    using next_active_total [OF assms(2,3)] by blast
  have 5: "\<exists>r m. run_pass clk ss n = (Inr r, m)"
  proof (cases r)
    case None
    then show ?thesis using nx by (simp add: run_pass_def)
  next
    case (Some x)
    then have "in_data_model x" using nx(2) assms(2) by auto
    then obtain str where "get_end_date_of_schedule clk x m = (Inr str, m + 2)"
      using get_end_date_of_schedule_total assms(3) by blast
    then show ?thesis using nx Some by (simp add: run_pass_def)
  qed
  show ?thesis using 1 2 3 nx(1) 5 by blast
qed

text \<open>
  The schedule 22:00 to 02:00 on Fridays with a clock that stands at Friday 23:00: every
  operation returns a value.
\<close>

theorem no_domain_errors_witness:
  "(\<exists>b. is_schedule_active
          (steady_clock \<lparr>local_time = instant 2024 1 5 23 0 0 0, utc_time = instant 2024 1 5 22 0 0 0\<rparr>)
          (schedule_of 22 0 2 0 (Some 5)) 0 = (Inr b, 1)) \<and>
   (\<exists>str. get_end_date_of_schedule
          (steady_clock \<lparr>local_time = instant 2024 1 5 23 0 0 0, utc_time = instant 2024 1 5 22 0 0 0\<rparr>)
          (schedule_of 22 0 2 0 (Some 5)) 0 = (Inr str, 2)) \<and>
   (\<exists>entries. get_launchscript_startintervals [schedule_of 22 0 2 0 (Some 5)] = Inr entries) \<and>
   (\<exists>r m. run_pass
          (steady_clock \<lparr>local_time = instant 2024 1 5 23 0 0 0, utc_time = instant 2024 1 5 22 0 0 0\<rparr>)
          [schedule_of 9 0 17 0 (Some 1), schedule_of 22 0 2 0 (Some 5)] 0 = (Inr r, m))"
proof -
  let ?clk = "steady_clock \<lparr>local_time = instant 2024 1 5 23 0 0 0,
                utc_time = instant 2024 1 5 22 0 0 0\<rparr>"
  have m: "in_data_model (schedule_of 22 0 2 0 (Some 5))"
    "\<forall>x \<in> set [schedule_of 9 0 17 0 (Some 1), schedule_of 22 0 2 0 (Some 5)]. in_data_model x"
    by (simp_all add: in_data_model_schedule_of)
  have t: "\<forall>k. valid_datetime (local_time (?clk k))"
    by (simp add: steady_clock_def valid_instant_jan_2024)
  show ?thesis
    using no_domain_errors [OF m t, of 0] by (simp only: add_0)
qed

section \<open>Properties of the floating-point model\<close>

lemma ilog2_le:
  assumes "0 < x"
  shows "2 powi (ilog2 x) \<le> x"
proof (cases "1 \<le> x")
  case True
  let ?n = "\<lfloor>x\<rfloor>"
  have n: "0 < ?n" using True by linarith
  then have b: "1 \<le> bitlen ?n" by (simp add: bitlen_ge_iff_power)
  have "(2::int) ^ nat (bitlen ?n - 1) \<le> ?n" using bitlen_bounds [OF n] by simp
  then have "(of_int ((2::int) ^ nat (bitlen ?n - 1)) :: rat) \<le> x"
    by (simp only: le_floor_iff)
  then have "(2::rat) ^ nat (bitlen ?n - 1) \<le> x" by simp
  moreover have "(2::rat) powi (bitlen ?n - 1) = 2 ^ nat (bitlen ?n - 1)"
    using b by (simp add: power_int_def)
  ultimately show ?thesis using True by (simp add: ilog2_def)
next
  case False
  let ?c = "\<lceil>1 / x\<rceil>"
  let ?k = "bitlen (?c - 1)"
  have x1: "x < 1" using False by simp
  have "1 < 1 / x" using assms x1 by simp
  then have c: "2 \<le> ?c" by linarith
  then have n: "0 < ?c - 1" by simp
  have k: "0 \<le> ?k" by (rule bitlen_nonneg)
  have "?c - 1 < 2 ^ nat ?k" using bitlen_bounds [OF n] by simp
  then have "?c \<le> 2 ^ nat ?k" by simp
  then have "1 / x \<le> of_int (2 ^ nat ?k)" by (simp only: ceiling_le_iff)
  then have "1 / x \<le> 2 ^ nat ?k" by simp
  then have "1 \<le> 2 ^ nat ?k * x" using assms by (simp add: field_simps)
  then have "1 / 2 ^ nat ?k \<le> x" by (simp add: field_simps)
  moreover have "(2::rat) powi (- ?k) = 1 / 2 ^ nat ?k"
    using k by (simp add: power_int_def field_simps)
  ultimately show ?thesis using False by (simp add: ilog2_def)
qed

lemma round_half_even_error: "\<bar>of_int (round_half_even y) - y\<bar> \<le> 1 / 2"
proof -
  define r where "r = y - of_int \<lfloor>y\<rfloor>"
  have r: "0 \<le> r" "r < 1" unfolding r_def by linarith+
  have c: "round_half_even y = \<lfloor>y\<rfloor> \<and> r \<le> 1 / 2 \<or> round_half_even y = \<lfloor>y\<rfloor> + 1 \<and> 1 / 2 \<le> r"
    unfolding round_half_even_def Let_def r_def by auto
  have y: "y = of_int \<lfloor>y\<rfloor> + r" by (simp add: r_def)
  show ?thesis
  proof (rule disjE [OF c])
    assume "round_half_even y = \<lfloor>y\<rfloor> \<and> r \<le> 1 / 2"
    then have "of_int (round_half_even y) - y = - r" "r \<le> 1 / 2" using y by simp_all
    then show ?thesis using r by simp
  next
    assume "round_half_even y = \<lfloor>y\<rfloor> + 1 \<and> 1 / 2 \<le> r"
    then have "of_int (round_half_even y) - y = 1 - r" "1 / 2 \<le> r" using y by simp_all
    then show ?thesis using r by simp
  qed
qed

lemma round_half_even_of_int: "round_half_even (of_int k) = k"
  by (simp add: round_half_even_def)

lemma to_double_error: "\<bar>to_double x - x\<bar> \<le> \<bar>x\<bar> / 2 ^ 53"
proof (cases "x = 0")
  case True
  then show ?thesis by (simp add: to_double_def)
next
  case False
  define e where "e = ilog2 \<bar>x\<bar> - 52"
  define p :: rat where "p = 2 powi e"
  define m where "m = round_half_even (x / p)"
  have p0: "0 < p" unfolding p_def by (simp add: zero_less_power_int)
  have fl: "to_double x = of_int m * p"
    using False by (simp add: to_double_def Let_def e_def p_def m_def)
  have "\<bar>of_int m - x / p\<bar> \<le> 1 / 2" unfolding m_def by (rule round_half_even_error)
  then have "\<bar>of_int m - x / p\<bar> * p \<le> 1 / 2 * p"
    using p0 by (intro mult_right_mono) simp_all
  moreover have "\<bar>of_int m - x / p\<bar> * p = \<bar>of_int m * p - x\<bar>"
  proof -
    have "\<bar>of_int m - x / p\<bar> * p = \<bar>(of_int m - x / p) * p\<bar>"
      using p0 by (simp add: abs_mult)
    also have "(of_int m - x / p) * p = of_int m * p - x"
      using p0 by (simp add: field_simps)
    finally show ?thesis .
  qed
  ultimately have err: "\<bar>to_double x - x\<bar> \<le> p / 2" using fl by simp
  have "2 powi (ilog2 \<bar>x\<bar>) \<le> \<bar>x\<bar>" using False by (intro ilog2_le) simp
  moreover have "(2::rat) powi (ilog2 \<bar>x\<bar>) = p * 2 ^ 52"
  proof -
    have "ilog2 \<bar>x\<bar> = e + 52" by (simp add: e_def)
    then show ?thesis unfolding p_def by (simp add: power_int_add)
  qed
  ultimately have "p * 2 ^ 52 \<le> \<bar>x\<bar>" by simp
  then have "p / 2 \<le> \<bar>x\<bar> / 2 ^ 53" by (simp add: field_simps)
  then show ?thesis using err by linarith
qed

lemma to_double_nonneg_iff: "0 \<le> to_double x \<longleftrightarrow> 0 \<le> x"
proof -
  have "\<bar>x\<bar> / 2 ^ 53 < \<bar>x\<bar>" if "x \<noteq> 0"
    using that by (simp add: field_simps)
  then show ?thesis
    using to_double_error [of x] by (cases "x = 0") (auto simp: to_double_def abs_if split: if_splits)
qed

lemma to_double_of_int:
  assumes "\<bar>n\<bar> < 2 ^ 53"
  shows "to_double (of_int n) = of_int n"
proof (cases "n = 0")
  case True
  then show ?thesis by (simp add: to_double_def)
next
  case False
  define a where "a = \<bar>n\<bar>"
  have a: "0 < a" "a < 2 ^ 53" using False assms by (simp_all add: a_def)
  have ax: "\<bar>(of_int n :: rat)\<bar> = of_int a" by (simp add: a_def)
  have "bitlen a \<le> 53" using a(2) by (simp add: bitlen_le_iff_power)
  moreover have "ilog2 (of_int a) = bitlen a - 1"
    using a(1) by (simp add: ilog2_def)
  ultimately have e: "ilog2 \<bar>(of_int n :: rat)\<bar> - 52 \<le> 0" using ax by simp
  define k where "k = nat (- (ilog2 \<bar>(of_int n :: rat)\<bar> - 52))"
  have p: "(2::rat) powi (ilog2 \<bar>(of_int n :: rat)\<bar> - 52) = 1 / 2 ^ k"
    using e by (auto simp: power_int_def k_def field_simps)
  have "(of_int n :: rat) / (1 / 2 ^ k) = of_int (n * 2 ^ k)" by simp
  then have "round_half_even ((of_int n :: rat) / (1 / 2 ^ k)) = n * 2 ^ k"
    using round_half_even_of_int [of "n * 2 ^ k"] by simp
  then show ?thesis
    using False p by (simp add: to_double_def Let_def)
qed

section \<open>Properties of the end date\<close>

lemma digit_char_is_digit: "d < 10 \<Longrightarrow> is_digit (digit_char d)"
  unfolding is_digit_def digit_char_def by (intro nth_mem) simp

lemma str_nat_digits: "\<forall>c \<in> set (str_nat n). is_digit c"
proof (induction n rule: str_nat.induct)
  case (1 n)
  show ?case
  proof (cases "n < 10")
    case True
    then show ?thesis by (subst str_nat.simps) (simp add: digit_char_is_digit)
  next
    case False
    then show ?thesis
      using 1 by (subst str_nat.simps) (simp add: digit_char_is_digit)
  qed
qed

lemma str_nat_nonempty: "str_nat n \<noteq> []"
  by (subst str_nat.simps) simp

lemma str_nat_length: "0 < w \<Longrightarrow> n < 10 ^ w \<Longrightarrow> length (str_nat n) \<le> w"
proof (induction w arbitrary: n)
  case 0
  then show ?case by simp
next
  case (Suc w)
  show ?case
  proof (cases "n < 10")
    case True
    then show ?thesis by (subst str_nat.simps) simp
  next
    case False
    then have w: "0 < w" using Suc.prems(2) by (cases w) auto
    have "n div 10 < 10 ^ w" using Suc.prems(2) by (simp add: less_mult_imp_div_less mult.commute)
    then have "length (str_nat (n div 10)) \<le> w" using Suc.IH [OF w] by simp
    then show ?thesis using False by (subst str_nat.simps) simp
  qed
qed

lemma is_digit_not_sign: "is_digit c \<Longrightarrow> c \<noteq> CHR ''+'' \<and> c \<noteq> CHR ''-'' \<and> c \<noteq> CHR ''%''"
  by (auto simp: is_digit_def)

lemma zfill_str_nat:
  "zfill w (str_nat n) = replicate (w - length (str_nat n)) CHR ''0'' @ str_nat n"
proof -
  obtain c r where s: "str_nat n = c # r" using str_nat_nonempty [of n] by (cases "str_nat n") auto
  then have "is_digit c" using str_nat_digits [of n] by simp
  then show ?thesis using s is_digit_not_sign [of c] by (simp add: zfill_def)
qed

lemma zfill_str_int_digits:
  assumes "0 \<le> v" "v < 10 ^ w" "0 < w"
  shows "length (zfill w (str_int v)) = w \<and> (\<forall>c \<in> set (zfill w (str_int v)). is_digit c)"
proof -
  have n: "nat v < 10 ^ w" using assms(1,2) by (simp add: nat_less_iff)
  have s: "str_int v = str_nat (nat v)" using assms(1) by (simp add: str_int_def)
  have l: "length (str_nat (nat v)) \<le> w" by (rule str_nat_length [OF assms(3) n])
  have z: "is_digit CHR ''0''" by (simp add: is_digit_def)
  show ?thesis
    using l z str_nat_digits [of "nat v"] by (auto simp: s zfill_str_nat)
qed

lemma digits_shape:
  "length s = n \<Longrightarrow> \<forall>c \<in> set s. is_digit c \<Longrightarrow> has_shape (replicate n CHR ''D'') s"
  unfolding has_shape_def
  by (induction s arbitrary: n) (auto simp: matches_def)

lemma has_shape_append:
  "has_shape p1 s1 \<Longrightarrow> has_shape p2 s2 \<Longrightarrow> has_shape (p1 @ p2) (s1 @ s2)"
  unfolding has_shape_def by (rule list_all2_appendI)

lemma has_shape_literal: "c \<noteq> CHR ''D'' \<Longrightarrow> c \<noteq> CHR ''S'' \<Longrightarrow> has_shape [c] [c]"
  by (simp add: has_shape_def matches_def)

lemma strftime_no_percent: "CHR ''%'' \<notin> set fmt \<Longrightarrow> strftime dt fmt = fmt"
  by (induction dt fmt rule: strftime.induct) auto

lemma total_microseconds_new_timedelta:
  "total_microseconds (new_timedelta d s us) = (d * 86400 + s) * 1000000 + us"
proof -
  define T where "T = (d * 86400 + s) * 1000000 + us"
  have m: "T mod 1000000 = (T mod 86400000000) mod 1000000"
    by (simp add: mod_mod_cancel)
  have "(T div 86400000000 * 86400 + T mod 86400000000 div 1000000) * 1000000 + T mod 1000000
          = T div 86400000000 * 86400000000 +
            (T mod 86400000000 div 1000000 * 1000000 + (T mod 86400000000) mod 1000000)"
    using m by (simp add: algebra_simps)
  also have "\<dots> = T div 86400000000 * 86400000000 + T mod 86400000000"
    by (simp only: div_mult_mod_eq)
  also have "\<dots> = T" by (simp only: div_mult_mod_eq)
  finally show ?thesis
    by (simp add: total_microseconds_def new_timedelta_def Let_def T_def)
qed

lemma offset_hundredths_bounds:
  assumes "\<bar>off\<bar> < 86400"
  shows "\<bar>off\<bar> div 36 - 1 \<le> offset_hundredths off \<and> offset_hundredths off \<le> \<bar>off\<bar> div 36"
proof -
  define x :: rat where "x = of_int off / 3600"
  define u where "u = to_double x"
  define v where "v = to_double (u * 100)"
  define a where "a = \<bar>off\<bar>"
  define q where "q = a div 36"
  define dl :: rat where "dl = 1 / 2 ^ 53"
  have a: "0 \<le> a" "a < 86400" using assms by (simp_all add: a_def)
  have ax: "\<bar>x\<bar> = of_int a / 3600" by (simp add: x_def a_def)
  have "(of_int a :: rat) < 86400" using a(2) by linarith
  then have x24: "\<bar>x\<bar> < 24" using ax by simp
  have "\<bar>u - x\<bar> \<le> \<bar>x\<bar> * dl" using to_double_error [of x] by (simp add: u_def dl_def)
  also have "\<dots> \<le> 24 * dl" using x24 by (simp add: dl_def)
  finally have ux: "\<bar>u - x\<bar> \<le> 24 * dl" .
  have dl1: "dl \<le> 1" by (simp add: dl_def)
  have u48: "\<bar>u * 100\<bar> \<le> 4800" using ux x24 dl1 by (simp add: abs_if split: if_splits)
  have "\<bar>v - u * 100\<bar> \<le> \<bar>u * 100\<bar> * dl"
    using to_double_error [of "u * 100"] by (simp add: v_def dl_def)
  also have "\<dots> \<le> 4800 * dl" using u48 by (simp add: dl_def)
  finally have vu: "\<bar>v - u * 100\<bar> \<le> 4800 * dl" .
  have "\<bar>v - x * 100\<bar> \<le> 7200 * dl" using vu ux by (simp add: abs_if split: if_splits)
  then have va: "\<bar>\<bar>v\<bar> - \<bar>x * 100\<bar>\<bar> \<le> 7200 * dl" by (simp add: abs_if split: if_splits)
  have x36: "\<bar>x * 100\<bar> = of_int a / 36" using ax by (simp add: abs_mult)
  have "a = q * 36 + a mod 36" by (simp add: q_def)
  moreover have "0 \<le> a mod 36" "a mod 36 \<le> 35" by simp_all
  ultimately have "q * 36 \<le> a" "a \<le> q * 36 + 35" by linarith+
  then have "(of_int (q * 36) :: rat) \<le> of_int a" "(of_int a :: rat) \<le> of_int (q * 36 + 35)"
    by (simp_all only: of_int_le_iff)
  then have qb: "of_int q \<le> (of_int a :: rat) / 36" "(of_int a :: rat) / 36 \<le> of_int q + 35 / 36"
    by simp_all
  have d: "7200 * dl < 1 / 36" by (simp add: dl_def)
  have up: "\<bar>v\<bar> < of_int (q + 1)" using va x36 qb d by (simp add: abs_if split: if_splits)
  have lo: "of_int (q - 1) \<le> \<bar>v\<bar>" using va x36 qb d by (simp add: abs_if split: if_splits)
  have h: "offset_hundredths off = \<lfloor>\<bar>v\<bar>\<rfloor>"
    by (simp add: offset_hundredths_def py_int_def v_def u_def x_def)
  have "\<lfloor>\<bar>v\<bar>\<rfloor> < q + 1" using up by (simp only: floor_less_iff)
  moreover have "q - 1 \<le> \<lfloor>\<bar>v\<bar>\<rfloor>" using lo by (simp only: le_floor_iff)
  ultimately show ?thesis using h by (simp add: q_def a_def)
qed

lemma str_int_no_percent: "CHR ''%'' \<notin> set (str_int v)"
  using str_nat_digits is_digit_not_sign by (auto simp: str_int_def)

lemma zfill_no_percent: "CHR ''%'' \<notin> set s \<Longrightarrow> CHR ''%'' \<notin> set (zfill w s)"
  by (auto simp: zfill_def split: list.splits)

text \<open>The date and time part of the result, and the offset suffix.\<close>

lemma format_end_date_parts:
  "format_end_date e ts =
     zfill 4 (str_int (year e)) @ ''-'' @ zfill 2 (str_int (month e)) @ ''-'' @
     zfill 2 (str_int (day e)) @ ''T'' @ zfill 2 (str_int (hour e)) @ '':'' @
     zfill 2 (str_int (minute e)) @ '':'' @ zfill 2 (str_int (second e)) @
     (if 0 \<le> to_double (total_seconds (dt_sub (local_time ts) (utc_time ts)) / 3600)
      then ''+'' else ''-'') @
     zfill 4 (str_int (py_int \<bar>to_double
       (to_double (total_seconds (dt_sub (local_time ts) (utc_time ts)) / 3600) * 100)\<bar>))"
proof -
  define sign where
    "sign = (if 0 \<le> to_double (total_seconds (dt_sub (local_time ts) (utc_time ts)) / 3600)
             then ''+'' else ''-'')"
  define offset where
    "offset = zfill 4 (str_int (py_int \<bar>to_double
       (to_double (total_seconds (dt_sub (local_time ts) (utc_time ts)) / 3600) * 100)\<bar>))"
  have "CHR ''%'' \<notin> set (sign @ offset)"
    using zfill_no_percent [OF str_int_no_percent] by (simp add: sign_def offset_def)
  then have t: "strftime e (sign @ offset) = sign @ offset" by (rule strftime_no_percent)
  have "format_end_date e ts = strftime e (''%Y-%m-%dT%H:%M:%S'' @ sign @ offset)"
    by (simp add: format_end_date_def Let_def sign_def offset_def)
  also have "\<dots> = zfill 4 (str_int (year e)) @ ''-'' @ zfill 2 (str_int (month e)) @ ''-'' @
     zfill 2 (str_int (day e)) @ ''T'' @ zfill 2 (str_int (hour e)) @ '':'' @
     zfill 2 (str_int (minute e)) @ '':'' @ zfill 2 (str_int (second e)) @ sign @ offset"
    using t by (simp add: directive_def)
  finally show ?thesis by (simp add: sign_def offset_def)
qed

lemma total_seconds_whole:
  assumes "total_microseconds td = off * 1000000" "\<bar>off\<bar> < 86400"
  shows "total_seconds td = of_int off"
proof -
  have "\<bar>off\<bar> < 2 ^ 53" using assms(2) by simp
  then show ?thesis
    using to_double_of_int [of off] assms(1) by (simp add: total_seconds_def)
qed

lemma format_end_date_offset:
  assumes "total_microseconds (dt_sub (local_time ts) (utc_time ts)) = off * 1000000"
    and "\<bar>off\<bar> < 86400"
  shows "format_end_date e ts =
     zfill 4 (str_int (year e)) @ ''-'' @ zfill 2 (str_int (month e)) @ ''-'' @
     zfill 2 (str_int (day e)) @ ''T'' @ zfill 2 (str_int (hour e)) @ '':'' @
     zfill 2 (str_int (minute e)) @ '':'' @ zfill 2 (str_int (second e)) @
     (if 0 \<le> off then ''+'' else ''-'') @ zfill 4 (str_int (offset_hundredths off))"
proof -
  have "0 \<le> to_double (of_int off / 3600) \<longleftrightarrow> 0 \<le> off"
    by (simp add: to_double_nonneg_iff)
  then show ?thesis
    unfolding format_end_date_parts total_seconds_whole [OF assms]
    by (simp add: offset_hundredths_def)
qed

lemma days_in_month_le: "1 \<le> m \<Longrightarrow> m \<le> 12 \<Longrightarrow> days_in_month y m \<le> 31"
proof -
  assume "1 \<le> m" "m \<le> 12"
  then have "m = 1 \<or> m = 2 \<or> m = 3 \<or> m = 4 \<or> m = 5 \<or> m = 6 \<or> m = 7 \<or> m = 8 \<or> m = 9 \<or>
    m = 10 \<or> m = 11 \<or> m = 12" by arith
  then show ?thesis by (auto simp: days_in_month_def)
qed

lemma zfill_shape4:
  assumes "0 \<le> v" "v < 10000"
  shows "has_shape ''DDDD'' (zfill 4 (str_int v))"
proof -
  have "length (zfill 4 (str_int v)) = 4 \<and> (\<forall>c \<in> set (zfill 4 (str_int v)). is_digit c)"
    using zfill_str_int_digits [of v 4] assms by simp
  then have "has_shape (replicate 4 CHR ''D'') (zfill 4 (str_int v))"
    by (intro digits_shape) simp_all
  then show ?thesis by (simp add: numeral_eq_Suc)
qed

lemma zfill_shape2:
  assumes "0 \<le> v" "v < 100"
  shows "has_shape ''DD'' (zfill 2 (str_int v))"
proof -
  have "length (zfill 2 (str_int v)) = 2 \<and> (\<forall>c \<in> set (zfill 2 (str_int v)). is_digit c)"
    using zfill_str_int_digits [of v 2] assms by simp
  then have "has_shape (replicate 2 CHR ''D'') (zfill 2 (str_int v))"
    by (intro digits_shape) simp_all
  then show ?thesis by (simp add: numeral_eq_Suc)
qed

lemma has_shape_length: "has_shape p s \<Longrightarrow> length s = length p"
  unfolding has_shape_def by (simp add: list_all2_lengthD)

lemma date_time_shape:
  assumes "valid_datetime now" "0 \<le> h" "h \<le> 23" "0 \<le> mi" "mi \<le> 59"
  shows "has_shape ''DDDD-DD-DDTDD:DD:DD''
           (zfill 4 (str_int (year now)) @ ''-'' @ zfill 2 (str_int (month now)) @ ''-'' @
            zfill 2 (str_int (day now)) @ ''T'' @ zfill 2 (str_int h) @ '':'' @
            zfill 2 (str_int mi) @ '':'' @ zfill 2 (str_int 0))"
proof -
  have y: "1 \<le> year now" "year now \<le> 9999" and m: "1 \<le> month now" "month now \<le> 12"
    and d: "1 \<le> day now" "day now \<le> days_in_month (year now) (month now)"
    using assms(1) by (auto simp: valid_datetime_def check_date_fields_def)
  have d31: "day now \<le> 31" using d(2) days_in_month_le [OF m, of "year now"] by simp
  have l: "has_shape ''-'' ''-''" "has_shape ''T'' ''T''" "has_shape '':'' '':''"
    by (simp_all add: has_shape_literal)
  have "has_shape (''DDDD'' @ ''-'' @ ''DD'' @ ''-'' @ ''DD'' @ ''T'' @ ''DD'' @ '':'' @ ''DD'' @
                   '':'' @ ''DD'')
          (zfill 4 (str_int (year now)) @ ''-'' @ zfill 2 (str_int (month now)) @ ''-'' @
           zfill 2 (str_int (day now)) @ ''T'' @ zfill 2 (str_int h) @ '':'' @
           zfill 2 (str_int mi) @ '':'' @ zfill 2 (str_int 0))"
    using y m d(1) d31 assms(2-5) l
    by (intro has_shape_append zfill_shape4 zfill_shape2) simp_all
  then show ?thesis by simp
qed

lemma drop_length_append: "length xs = n \<Longrightarrow> drop n (xs @ ys) = ys"
  by simp

text \<open>
  The result for every offset. For a schedule of the data model, when local time is a
  whole number of seconds \<open>off\<close> ahead of UTC, less than a day in magnitude,
  \<open>get_end_date_of_schedule\<close> returns a string of the shape
  \<open>YYYY-MM-DDTHH:MM:SS\<close> followed by a sign and four digits. The digits are
  \<open>offset_hundredths off\<close>: never above the whole hundredths of an hour in the offset,
  \<open>\<bar>off\<bar> div 36\<close>, and at most one below.
\<close>

lemma end_date_format:
  assumes "valid_schedule s sh sm eh em wd" "valid_datetime (local_time (clk n))"
    and "total_microseconds (dt_sub (local_time (clk (n + 1))) (utc_time (clk (n + 1)))) =
           off * 1000000"
    and "\<bar>off\<bar> < 86400"
  shows "\<exists>str. get_end_date_of_schedule clk s n = (Inr str, n + 2) \<and>
           has_shape ''DDDD-DD-DDTDD:DD:DDSDDDD'' str \<and>
           drop 19 str =
             (if 0 \<le> off then ''+'' else ''-'') @ zfill 4 (str_int (offset_hundredths off)) \<and>
           \<bar>off\<bar> div 36 - 1 \<le> offset_hundredths off \<and>
           offset_hundredths off \<le> \<bar>off\<bar> div 36"
proof -
  let ?now = "local_time (clk n)"
  let ?e = "at_time ?now eh em"
  let ?dt = "zfill 4 (str_int (year ?now)) @ ''-'' @ zfill 2 (str_int (month ?now)) @ ''-'' @
            zfill 2 (str_int (day ?now)) @ ''T'' @ zfill 2 (str_int eh) @ '':'' @
            zfill 2 (str_int em) @ '':'' @ zfill 2 (str_int 0)"
  let ?sign = "if 0 \<le> off then ''+'' else ''-''"
  let ?digits = "zfill 4 (str_int (offset_hundredths off))"
  have r: "0 \<le> eh" "eh \<le> 23" "0 \<le> em" "em \<le> 59"
    using assms(1) by (auto simp: valid_schedule_def)
  have g: "get_end_date_of_schedule clk s n = (Inr (format_end_date ?e (clk (n + 1))), n + 2)"
    using get_end_date_of_schedule_reads [where clk = clk and n = n,
        OF endtime_of_valid [OF assms(1,2)]] .
  have f: "format_end_date ?e (clk (n + 1)) = ?dt @ ?sign @ ?digits"
    using format_end_date_offset [OF assms(3,4), of ?e] by (simp add: at_time_def)
  have b: "\<bar>off\<bar> div 36 - 1 \<le> offset_hundredths off" "offset_hundredths off \<le> \<bar>off\<bar> div 36"
    using offset_hundredths_bounds [OF assms(4)] by simp_all
  have "0 \<le> offset_hundredths off" by (simp add: offset_hundredths_def py_int_def)
  moreover have "offset_hundredths off < 10000" using b(2) assms(4) by linarith
  ultimately have d: "has_shape ''DDDD'' ?digits" by (rule zfill_shape4)
  have p: "has_shape ''DDDD-DD-DDTDD:DD:DD'' ?dt"
    by (rule date_time_shape [OF assms(2) r])
  have sg: "has_shape ''S'' ?sign" by (simp add: has_shape_def matches_def)
  have "has_shape (''DDDD-DD-DDTDD:DD:DD'' @ ''S'' @ ''DDDD'') (?dt @ ?sign @ ?digits)"
    by (intro has_shape_append p sg d)
  then have sh: "has_shape ''DDDD-DD-DDTDD:DD:DDSDDDD'' (?dt @ ?sign @ ?digits)" by simp
  have dr: "drop 19 (?dt @ ?sign @ ?digits) = ?sign @ ?digits"
  proof -
    have "length ?dt = 19" using has_shape_length [OF p] by simp
    then show ?thesis by (rule drop_length_append)
  qed
  show ?thesis
    using g f sh dr b by (intro exI [of _ "?dt @ ?sign @ ?digits"]) simp
qed

text \<open>
  The schedule 22:00 to 02:00 on Fridays, on Friday 5 January 2024 at 23:00 with local
  time 5 hours 40 minutes (20400 seconds) ahead of UTC: the offset is 566 whole
  hundredths of an hour.
\<close>

lemma end_date_format_example:
  "get_end_date_of_schedule clock_utc_0540 (schedule_of 22 0 2 0 (Some 5)) 0 =
     (Inr ''2024-01-05T02:00:00+0566'', 2) \<and>
   has_shape ''DDDD-DD-DDTDD:DD:DDSDDDD'' ''2024-01-05T02:00:00+0566'' \<and>
   offset_hundredths 20400 = 566 \<and> \<bar>20400\<bar> div 36 = (566 :: int)"
proof -
  have v: "valid_schedule (schedule_of 22 0 2 0 (Some 5)) 22 0 2 0 (Some 5)"
    by (rule valid_schedule_of) simp_all
  have c: "clock_utc_0540 k =
             \<lparr>local_time = instant 2024 1 5 23 0 0 0, utc_time = instant 2024 1 5 17 20 0 0\<rparr>" for k
    by (simp add: clock_utc_0540_def steady_clock_def)
  have t: "valid_datetime (local_time (clock_utc_0540 0))"
    unfolding c by (simp add: valid_instant_jan_2024)
  have o: "total_microseconds
             (dt_sub (local_time (clock_utc_0540 (0 + 1))) (utc_time (clock_utc_0540 (0 + 1)))) =
             20400 * 1000000"
    unfolding c
    by (simp add: dt_sub_def total_microseconds_new_timedelta instant_sel toordinal_def)
  have a: "\<bar>20400 :: int\<bar> < 86400" by simp
  obtain str where s: "get_end_date_of_schedule clock_utc_0540 (schedule_of 22 0 2 0 (Some 5)) 0 =
      (Inr str, 0 + 2)" "has_shape ''DDDD-DD-DDTDD:DD:DDSDDDD'' str"
    using end_date_format [OF v t o a] by blast
  have e: "get_end_date_of_schedule clock_utc_0540 (schedule_of 22 0 2 0 (Some 5)) 0 =
             (Inr ''2024-01-05T02:00:00+0566'', 2)"
    by code_simp
  have h: "offset_hundredths 20400 = 566" by code_simp
  have "str = ''2024-01-05T02:00:00+0566''" using s(1) e by simp
  then show ?thesis using s(2) e h by simp
qed

text \<open>
  C3. For a schedule of the data model, \<open>get_end_date_of_schedule\<close> builds \<open>endtime\<close> on
  the calendar day that the clock shows, at the schedule's end hour and minute, and
  the string it returns starts with that date: the day is never advanced, also when
  the window crosses midnight. For every window that crosses midnight the end instant
  so computed is before the start instant of the window on the same day.
\<close>

theorem end_date_same_day:
  assumes "valid_schedule s sh sm eh em wd" "valid_datetime (local_time (clk n))"
  shows "endtime_of (local_time (clk n)) s = Inr (at_time (local_time (clk n)) eh em) \<and>
         year (at_time (local_time (clk n)) eh em) = year (local_time (clk n)) \<and>
         month (at_time (local_time (clk n)) eh em) = month (local_time (clk n)) \<and>
         day (at_time (local_time (clk n)) eh em) = day (local_time (clk n)) \<and>
         (\<exists>suffix. get_end_date_of_schedule clk s n =
            (Inr (zfill 4 (str_int (year (local_time (clk n)))) @ ''-'' @
                  zfill 2 (str_int (month (local_time (clk n)))) @ ''-'' @
                  zfill 2 (str_int (day (local_time (clk n)))) @ ''T'' @
                  zfill 2 (str_int eh) @ '':'' @ zfill 2 (str_int em) @ '':'' @
                  zfill 2 (str_int 0) @ suffix), n + 2)) \<and>
         (crosses_midnight sh sm eh em \<longrightarrow>
            dt_le (at_time (local_time (clk n)) eh em) (at_time (local_time (clk n)) sh sm) \<and>
            \<not> dt_le (at_time (local_time (clk n)) sh sm) (at_time (local_time (clk n)) eh em))"
proof -
  let ?now = "local_time (clk n)"
  have e: "endtime_of ?now s = Inr (at_time ?now eh em)"
    by (rule endtime_of_valid [OF assms])
  have g: "get_end_date_of_schedule clk s n =
             (Inr (format_end_date (at_time ?now eh em) (clk (n + 1))), n + 2)"
    using get_end_date_of_schedule_reads [where clk = clk and n = n, OF e] .
  have f: "\<exists>suffix. format_end_date (at_time ?now eh em) (clk (n + 1)) =
             zfill 4 (str_int (year ?now)) @ ''-'' @ zfill 2 (str_int (month ?now)) @ ''-'' @
             zfill 2 (str_int (day ?now)) @ ''T'' @ zfill 2 (str_int eh) @ '':'' @
             zfill 2 (str_int em) @ '':'' @ zfill 2 (str_int 0) @ suffix"
    unfolding format_end_date_parts by (simp add: at_time_def)
  have c: "dt_le (at_time ?now eh em) (at_time ?now sh sm) \<and>
           \<not> dt_le (at_time ?now sh sm) (at_time ?now eh em)"
    if "crosses_midnight sh sm eh em"
    using that by (auto simp: crosses_midnight_def dt_le_def dt_fields_def at_time_def)
  show ?thesis
    using e g f c by (auto simp: at_time_def)
qed

text \<open>
  The schedule 22:00 to 02:00 on Fridays is active on Friday 5 January 2024 at 23:00, and
  the end date returned then is 02:00 of that same Friday: before the start of the
  window at 22:00, and before now.
\<close>

theorem end_date_same_day_witness:
  "is_schedule_active_at (instant 2024 1 5 23 0 0 0) (schedule_of 22 0 2 0 (Some 5)) = Inr True \<and>
   get_end_date_of_schedule clock_utc_0540 (schedule_of 22 0 2 0 (Some 5)) 0 =
     (Inr ''2024-01-05T02:00:00+0566'', 2) \<and>
   endtime_of (instant 2024 1 5 23 0 0 0) (schedule_of 22 0 2 0 (Some 5)) =
     Inr (instant 2024 1 5 2 0 0 0) \<and>
   \<not> dt_le (instant 2024 1 5 22 0 0 0) (instant 2024 1 5 2 0 0 0) \<and>
   dt_le (instant 2024 1 5 2 0 0 0) (instant 2024 1 5 23 0 0 0)"
proof -
  let ?now = "instant 2024 1 5 23 0 0 0"
  let ?s = "schedule_of 22 0 2 0 (Some 5)"
  have v: "valid_schedule ?s 22 0 2 0 (Some 5)"
    by (rule valid_schedule_of) simp_all
  have c: "local_time (clock_utc_0540 k) = ?now" for k
    by (simp add: clock_utc_0540_def steady_clock_def)
  have t: "valid_datetime (local_time (clock_utc_0540 0))"
    unfolding c by (simp add: valid_instant_jan_2024)
  have x: "crosses_midnight 22 0 2 0" by (simp add: crosses_midnight_def)
  note w = end_date_same_day [where clk = clock_utc_0540 and n = 0, OF v t,
      unfolded c at_time_instant]
  have 1: "endtime_of ?now ?s = Inr (instant 2024 1 5 2 0 0 0)"
    using w by blast
  have 2: "\<not> dt_le (instant 2024 1 5 22 0 0 0) (instant 2024 1 5 2 0 0 0)"
    using w x by blast
  have 3: "dt_le (instant 2024 1 5 2 0 0 0) ?now" by (simp add: dt_le_instant)
  have 4: "is_schedule_active_at ?now ?s = Inr True"
    using is_schedule_active_at_char [OF v, of ?now] t x
    by (simp add: c on_weekday_def isoweekday_jan_2024 at_time_instant dt_le_instant)
  have 5: "get_end_date_of_schedule clock_utc_0540 ?s 0 = (Inr ''2024-01-05T02:00:00+0566'', 2)"
    by code_simp
  show ?thesis using 1 2 3 4 5 by (simp only: simp_thms)
qed

section \<open>Reading the start intervals back\<close>

lemma digit_value_digit_char: "d < 10 \<Longrightarrow> digit_value (digit_char d) = d"
proof -
  assume "d < 10"
  then have "d = 0 \<or> d = 1 \<or> d = 2 \<or> d = 3 \<or> d = 4 \<or> d = 5 \<or> d = 6 \<or> d = 7 \<or> d = 8 \<or> d = 9"
    by arith
  then show ?thesis by (auto simp: digit_value_def digit_char_def)
qed

lemma decimal_value_snoc: "decimal_value (s @ [c]) = 10 * decimal_value s + digit_value c"
  by (simp add: decimal_value_def)

lemma decimal_value_str_nat: "decimal_value (str_nat n) = n"
proof (induction n rule: str_nat.induct)
  case (1 n)
  show ?case
  proof (cases "n < 10")
    case True
    then show ?thesis
      by (subst str_nat.simps) (simp add: decimal_value_def digit_value_digit_char)
  next
    case False
    then have "decimal_value (str_nat n) = 10 * (n div 10) + n mod 10"
      using 1 by (subst str_nat.simps) (simp add: decimal_value_snoc digit_value_digit_char)
    then show ?thesis by simp
  qed
qed

lemma int_of_str_str_int: "int_of_str (str_int v) = v"
proof (cases "v < 0")
  case True
  then show ?thesis by (simp add: int_of_str_def str_int_def decimal_value_str_nat)
next
  case False
  obtain c r where s: "str_nat (nat v) = c # r"
    using str_nat_nonempty [of "nat v"] by (cases "str_nat (nat v)") auto
  then have "is_digit c" using str_nat_digits [of "nat v"] by simp
  then have "c \<noteq> CHR ''-''" using is_digit_not_sign by blast
  then have "int_of_str (str_nat (nat v)) = int (decimal_value (str_nat (nat v)))"
    using s by (simp add: int_of_str_def)
  then show ?thesis using False by (simp add: str_int_def decimal_value_str_nat)
qed

lemma str_int_no_lt: "\<forall>c \<in> set (str_int v). c \<noteq> CHR ''<''"
proof -
  have "c \<noteq> CHR ''<''" if "is_digit c" for c using that by (auto simp: is_digit_def)
  then show ?thesis using str_nat_digits by (auto simp: str_int_def)
qed

lemma integer_at_str_int:
  "integer_at before (before @ str_int v @ CHR ''<'' # rest) = (str_int v, CHR ''<'' # rest)"
proof -
  have t: "takeWhile (\<lambda>c. c \<noteq> CHR ''<'') (str_int v @ CHR ''<'' # rest) = str_int v"
    using str_int_no_lt [of v] by (simp add: takeWhile_tail)
  have d: "dropWhile (\<lambda>c. c \<noteq> CHR ''<'') (str_int v @ CHR ''<'' # rest) = CHR ''<'' # rest"
    using str_int_no_lt [of v] by (simp add: dropWhile_append3)
  show ?thesis by (simp add: integer_at_def t d)
qed

lemma startinterval_literal:
  "startinterval w sm sh =
     ''<dict>'' @ [CHR 0x0A] @
                     ''                    <key>Weekday</key>'' @ [CHR 0x0A] @
                     ''                    <integer>'' @ str_int w @ ''</integer>'' @ [CHR 0x0A] @
                     ''                    <key>Minute</key>'' @ [CHR 0x0A] @
                     ''                    <integer>'' @ str_int sm @ ''</integer>'' @ [CHR 0x0A] @
                     ''                    <key>Hour</key>'' @ [CHR 0x0A] @
                     ''                    <integer>'' @ str_int sh @ ''</integer>'' @ [CHR 0x0A] @
                     ''                </dict>'' @ [CHR 0x0A] @
                     ''                ''"
  by (simp add: startinterval_def newline_def)

lemma startinterval_parts:
  "startinterval w sm sh =
     before_weekday @ str_int w @ before_minute @ str_int sm @ before_hour @ str_int sh @
     ''</integer>'' @ [CHR 0x0A] @ ''                </dict>'' @ [CHR 0x0A] @ ''                ''"
  by (simp add: startinterval_def newline_def before_weekday_def before_minute_def before_hour_def)

lemma before_starts:
  "before_minute = CHR ''<'' # tl before_minute" "before_hour = CHR ''<'' # tl before_hour"
  by (simp_all add: before_minute_def before_hour_def)

lemma entry_tuple_startinterval: "entry_tuple (startinterval w sm sh) = (w, sh, sm)"
proof -
  define r3 where
    "r3 = ''/integer>'' @ [CHR 0x0A] @ ''                </dict>'' @ [CHR 0x0A] @ ''                ''"
  define r2 where "r2 = before_hour @ str_int sh @ CHR ''<'' # r3"
  define r1 where "r1 = before_minute @ str_int sm @ r2"
  have e: "startinterval w sm sh = before_weekday @ str_int w @ r1"
    unfolding startinterval_parts r1_def r2_def r3_def by simp
  have r1': "r1 = CHR ''<'' # (tl before_minute @ str_int sm @ r2)"
    unfolding r1_def by (subst before_starts(1)) simp
  have r2': "r2 = CHR ''<'' # (tl before_hour @ str_int sh @ CHR ''<'' # r3)"
    unfolding r2_def by (subst before_starts(2)) simp
  have 1: "integer_at before_weekday (startinterval w sm sh) = (str_int w, r1)"
    unfolding e by (subst (1 2) r1') (rule integer_at_str_int)
  have 2: "integer_at before_minute r1 = (str_int sm, r2)"
    unfolding r1_def by (subst (1 2) r2') (rule integer_at_str_int)
  have 3: "integer_at before_hour r2 = (str_int sh, CHR ''<'' # r3)"
    unfolding r2_def by (rule integer_at_str_int)
  show ?thesis
    by (simp add: entry_tuple_def 1 2 3 int_of_str_str_int)
qed

text \<open>
  C7. For a schedule of the data model, the start intervals are one entry per weekday
  of the schedule, in ascending weekday order: seven entries, for the weekdays 1 to 7,
  when the weekday is unset. Each entry is the \<open><dict>\<close> text with the weekday under
  \<open>Weekday\<close>, the schedule's start minute under \<open>Minute\<close> and its start hour under
  \<open>Hour\<close>, in decimal, so that reading the entries back gives the tuples
  (weekday, start hour, start minute). For a sequence of schedules the entries come in
  the order of the sequence, the entries of each schedule kept as they are, so nothing
  is removed as a duplicate.
\<close>

theorem startintervals_expand:
  assumes "valid_schedule s sh sm eh em wd"
  shows "get_launchscript_startintervals [s] =
           Inr (map (\<lambda>w.
                     ''<dict>'' @ [CHR 0x0A] @
                       ''                    <key>Weekday</key>'' @ [CHR 0x0A] @
                       ''                    <integer>'' @ str_int w @ ''</integer>'' @ [CHR 0x0A] @
                       ''                    <key>Minute</key>'' @ [CHR 0x0A] @
                       ''                    <integer>'' @ str_int sm @ ''</integer>'' @ [CHR 0x0A] @
                       ''                    <key>Hour</key>'' @ [CHR 0x0A] @
                       ''                    <integer>'' @ str_int sh @ ''</integer>'' @ [CHR 0x0A] @
                       ''                </dict>'' @ [CHR 0x0A] @
                       ''                '')
                  (case wd of None \<Rightarrow> [1, 2, 3, 4, 5, 6, 7] | Some w \<Rightarrow> [w])) \<and>
         (\<exists>entries. get_launchscript_startintervals [s] = Inr entries \<and>
            map entry_tuple entries = map (\<lambda>w. (w, sh, sm)) (case wd of None \<Rightarrow> [1, 2, 3, 4, 5, 6, 7] | Some w \<Rightarrow> [w]) \<and>
            (wd = None \<longrightarrow> length entries = 7)) \<and>
         int_of_str (str_int v) = v \<and>
         get_launchscript_startintervals (xs @ ys) =
           and_then (get_launchscript_startintervals xs) (\<lambda>a.
           and_then (get_launchscript_startintervals ys) (\<lambda>b. Inr (a @ b))) \<and>
         (get_launchscript_startintervals rest = Inr others \<longrightarrow>
            get_launchscript_startintervals (s # rest) =
              Inr (map (\<lambda>w. startinterval w sm sh) (case wd of None \<Rightarrow> [1, 2, 3, 4, 5, 6, 7] | Some w \<Rightarrow> [w]) @ others))"
proof -
  let ?wk = "(case wd of None \<Rightarrow> [1, 2, 3, 4, 5, 6, 7] | Some w \<Rightarrow> [w])"
  have k: "s ''start-minute'' = Some sm" "s ''start-hour'' = Some sh" "s ''weekday'' = wd"
    using assms by (auto simp: valid_schedule_def)
  have w: "get_schedule_weekdays s = ?wk"
    using k(3) by (simp add: get_schedule_weekdays_def upto_1_7 split: option.splits)
  have one: "schedule_startintervals s (get_schedule_weekdays s) =
               Inr (map (\<lambda>w. startinterval w sm sh) ?wk)"
    using schedule_startintervals_present [OF k(1,2)] w by simp
  have a: "get_launchscript_startintervals [s] = Inr (map (\<lambda>w. startinterval w sm sh) ?wk)"
    using one by (simp add: and_then_def)
  have a': "get_launchscript_startintervals [s] =
           Inr (map (\<lambda>w.
                     ''<dict>'' @ [CHR 0x0A] @
                       ''                    <key>Weekday</key>'' @ [CHR 0x0A] @
                       ''                    <integer>'' @ str_int w @ ''</integer>'' @ [CHR 0x0A] @
                       ''                    <key>Minute</key>'' @ [CHR 0x0A] @
                       ''                    <integer>'' @ str_int sm @ ''</integer>'' @ [CHR 0x0A] @
                       ''                    <key>Hour</key>'' @ [CHR 0x0A] @
                       ''                    <integer>'' @ str_int sh @ ''</integer>'' @ [CHR 0x0A] @
                       ''                </dict>'' @ [CHR 0x0A] @
                       ''                '')
                  ?wk)"
    using a unfolding startinterval_literal .
  have t: "map entry_tuple (map (\<lambda>w. startinterval w sm sh) ?wk) = map (\<lambda>w. (w, sh, sm)) ?wk"
    by (simp add: entry_tuple_startinterval)
  have l: "wd = None \<longrightarrow> length (map (\<lambda>w. startinterval w sm sh) ?wk) = 7" by simp
  have b: "\<exists>entries. get_launchscript_startintervals [s] = Inr entries \<and>
            map entry_tuple entries = map (\<lambda>w. (w, sh, sm)) ?wk \<and>
            (wd = None \<longrightarrow> length entries = 7)"
    using a t l by blast
  have d: "get_launchscript_startintervals rest = Inr others \<longrightarrow>
             get_launchscript_startintervals (s # rest) =
               Inr (map (\<lambda>w. startinterval w sm sh) ?wk @ others)"
    using one by (simp add: and_then_def)
  show ?thesis
    using a' b d int_of_str_str_int [of v] get_launchscript_startintervals_append [of xs ys]
    by blast
qed

text \<open>
  The Wednesday schedule that starts at 22:30 gives one entry, with 3, 30 and 22 in it.
  A schedule for every day at 09:05 gives seven entries, which read back as the seven
  tuples; the Wednesday schedule given twice gives its entry twice.
\<close>

theorem startintervals_expand_witness:
  "get_launchscript_startintervals [schedule_of 22 30 2 0 (Some 3)] =
     Inr [''<dict>'' @ [CHR 0x0A] @
          ''                    <key>Weekday</key>'' @ [CHR 0x0A] @
          ''                    <integer>3</integer>'' @ [CHR 0x0A] @
          ''                    <key>Minute</key>'' @ [CHR 0x0A] @
          ''                    <integer>30</integer>'' @ [CHR 0x0A] @
          ''                    <key>Hour</key>'' @ [CHR 0x0A] @
          ''                    <integer>22</integer>'' @ [CHR 0x0A] @
          ''                </dict>'' @ [CHR 0x0A] @
          ''                ''] \<and>
   (\<exists>entries. get_launchscript_startintervals [schedule_of 9 5 17 0 None] = Inr entries \<and>
      map entry_tuple entries =
        [(1, 9, 5), (2, 9, 5), (3, 9, 5), (4, 9, 5), (5, 9, 5), (6, 9, 5), (7, 9, 5)] \<and>
      length entries = 7) \<and>
   get_launchscript_startintervals [schedule_of 22 30 2 0 (Some 3), schedule_of 22 30 2 0 (Some 3)] =
     Inr [startinterval 3 30 22, startinterval 3 30 22] \<and>
   entry_tuple (startinterval 3 30 22) = (3, 22, 30)"
proof -
  have v: "valid_schedule (schedule_of 22 30 2 0 (Some 3)) 22 30 2 0 (Some 3)"
    "valid_schedule (schedule_of 9 5 17 0 None) 9 5 17 0 None"
    by (rule valid_schedule_of; simp)+
  have d: "str_int 3 = ''3''" "str_int 30 = ''30''" "str_int 22 = ''22''"
    by code_simp+
  note w3 = startintervals_expand [OF v(1), of 0 "[]" "[]"]
  have 1: "get_launchscript_startintervals [schedule_of 22 30 2 0 (Some 3)] =
     Inr [''<dict>'' @ [CHR 0x0A] @
          ''                    <key>Weekday</key>'' @ [CHR 0x0A] @
          ''                    <integer>3</integer>'' @ [CHR 0x0A] @
          ''                    <key>Minute</key>'' @ [CHR 0x0A] @
          ''                    <integer>30</integer>'' @ [CHR 0x0A] @
          ''                    <key>Hour</key>'' @ [CHR 0x0A] @
          ''                    <integer>22</integer>'' @ [CHR 0x0A] @
          ''                </dict>'' @ [CHR 0x0A] @
          ''                '']"
    using w3 [of "[]" "[]", THEN conjunct1] by (simp add: d)
  have 2: "\<exists>entries. get_launchscript_startintervals [schedule_of 9 5 17 0 None] = Inr entries \<and>
      map entry_tuple entries =
        [(1, 9, 5), (2, 9, 5), (3, 9, 5), (4, 9, 5), (5, 9, 5), (6, 9, 5), (7, 9, 5)] \<and>
      length entries = 7"
    using startintervals_expand [OF v(2), of 0 "[]" "[]" "[]" "[]", THEN conjunct2, THEN conjunct1]
    by simp
  have o: "get_launchscript_startintervals [schedule_of 22 30 2 0 (Some 3)] =
             Inr [startinterval 3 30 22]"
    using 1 by (simp add: startinterval_literal d)
  have 3: "get_launchscript_startintervals
             [schedule_of 22 30 2 0 (Some 3), schedule_of 22 30 2 0 (Some 3)] =
             Inr [startinterval 3 30 22, startinterval 3 30 22]"
    using w3 [of "[schedule_of 22 30 2 0 (Some 3)]" "[startinterval 3 30 22]"] o by simp
  have 4: "entry_tuple (startinterval 3 30 22) = (3, 22, 30)"
    using 2 startintervals_expand [OF v(1), of 0 "[]" "[]" "[]" "[]", THEN conjunct2, THEN conjunct1]
      o by auto
  show ?thesis using 1 2 3 4 by (simp only: simp_thms)
qed

text \<open>
  C4. The offset suffix that the code returns is neither the magnitude rounded to the
  nearest hundredth of an hour nor an ISO 8601 offset. With local time 5 hours 40
  minutes (20400 seconds) ahead of UTC, \<open>int(abs(utc_offset * 100))\<close> truncates 566.67
  and the result ends in \<open>+0566\<close>, where rounding gives \<open>+0567\<close> and ISO 8601 is
  \<open>+0540\<close>. With local time 5 hours 30 minutes (19800 seconds) ahead the result ends
  in \<open>+0550\<close>, where ISO 8601 is \<open>+0530\<close>.
\<close>

theorem utc_offset_suffix_at_0540:
  "get_end_date_of_schedule clock_utc_0540 (schedule_of 22 0 2 0 (Some 5)) 0 =
     (Inr ''2024-01-05T02:00:00+0566'', 2) \<and>
   total_microseconds (dt_sub (local_time (clock_utc_0540 1)) (utc_time (clock_utc_0540 1))) =
     20400 * 1000000 \<and>
   spec_offset_suffix 20400 = ''+0567'' \<and>
   iso8601_offset_suffix 20400 = ''+0540'' \<and>
   get_end_date_of_schedule clock_utc_0530 (schedule_of 22 0 2 0 (Some 5)) 0 =
     (Inr ''2024-01-05T02:00:00+0550'', 2) \<and>
   total_microseconds (dt_sub (local_time (clock_utc_0530 1)) (utc_time (clock_utc_0530 1))) =
     19800 * 1000000 \<and>
   iso8601_offset_suffix 19800 = ''+0530''"
  by code_simp

end
